theory Spec2Isabelle
  imports Main "HOL-Library.Log_Nat"
begin

section \<open>Strings and dictionaries of the Python source\<close>

text \<open>
  Python strings are modelled as \<open>string\<close> (a list of bytes), and the text that the
  program handles (paths, patterns, log lines) is taken to be ASCII: \<open>lower\<close> and \<open>strip\<close>
  below do what \<open>str.lower\<close> and \<open>str.strip\<close> do on ASCII text, and leave every other
  byte alone, where Python would also fold non-ASCII letters and remove Unicode spaces
  such as U+0085 and U+00A0. A \<open>dict\<close> is an association
  list in insertion order: \<open>map_of\<close> is the lookup, \<open>dict_set\<close> the assignment
  \<open>d[k] = v\<close> (an existing key keeps its position, a new key is appended).
\<close>

type_synonym ('k, 'v) dict = "('k \<times> 'v) list"

fun dict_set :: "'k \<Rightarrow> 'v \<Rightarrow> ('k, 'v) dict \<Rightarrow> ('k, 'v) dict" where
  "dict_set k v [] = [(k, v)]"
| "dict_set k v ((k', v') # d) = (if k = k' then (k, v) # d else (k', v') # dict_set k v d)"

definition dict_keys :: "('k, 'v) dict \<Rightarrow> 'k list" where
  "dict_keys d = map fst d"

definition dict_values :: "('k, 'v) dict \<Rightarrow> 'v list" where
  "dict_values d = map snd d"

text \<open>\<open>s.split(sep)\<close> for a one-character separator: always at least one field.\<close>

fun split_on :: "char \<Rightarrow> string \<Rightarrow> string list" where
  "split_on sep [] = [[]]"
| "split_on sep (c # cs) =
     (if c = sep then [] # split_on sep cs
      else (case split_on sep cs of [] \<Rightarrow> [[c]] | w # ws \<Rightarrow> (c # w) # ws))"

text \<open>\<open>s.split(sep, maxsplit)\<close>: at most \<open>maxsplit\<close> cuts, the rest stays in the last field.\<close>

fun split_max :: "char \<Rightarrow> nat \<Rightarrow> string \<Rightarrow> string list" where
  "split_max sep 0 s = [s]"
| "split_max sep (Suc n) [] = [[]]"
| "split_max sep (Suc n) (c # cs) =
     (if c = sep then [] # split_max sep n cs
      else (case split_max sep (Suc n) cs of [] \<Rightarrow> [[c]] | w # ws \<Rightarrow> (c # w) # ws))"

text \<open>\<open>sep.join(parts)\<close>.\<close>

fun join :: "string \<Rightarrow> string list \<Rightarrow> string" where
  "join sep [] = []"
| "join sep [x] = x"
| "join sep (x # y # ys) = x @ sep @ join sep (y # ys)"

text \<open>
  \<open>str.isspace\<close> on the ASCII range: tab, line feed, vertical tab, form feed, carriage
  return, the four separators 0x1C..0x1F and the space.
\<close>

definition isspace :: "char \<Rightarrow> bool" where
  "isspace c = (c \<in> set [CHR 0x09, CHR 0x0A, CHR 0x0B, CHR 0x0C, CHR 0x0D,
                           CHR 0x1C, CHR 0x1D, CHR 0x1E, CHR 0x1F, CHR 0x20])"

definition strip :: "string \<Rightarrow> string" where
  "strip s = rev (dropWhile isspace (rev (dropWhile isspace s)))"

text \<open>\<open>s.rstrip(chars)\<close> removes every trailing character that belongs to the set \<open>chars\<close>.\<close>

definition rstrip_chars :: "string \<Rightarrow> string \<Rightarrow> string" where
  "rstrip_chars chars s = rev (dropWhile (\<lambda>c. c \<in> set chars) (rev s))"

definition startswith :: "string \<Rightarrow> string \<Rightarrow> bool" where
  "startswith p s = (take (length p) s = p)"

definition lower_char :: "char \<Rightarrow> char" where
  "lower_char c =
     (case map_of (zip ''ABCDEFGHIJKLMNOPQRSTUVWXYZ'' ''abcdefghijklmnopqrstuvwxyz'') c of
        None \<Rightarrow> c | Some d \<Rightarrow> d)"

definition lower :: "string \<Rightarrow> string" where
  "lower s = map lower_char s"

section \<open>Glob matching: \<open>fnmatch.fnmatch\<close>\<close>

text \<open>
  The standard library translates a pattern into a regular expression and matches the
  whole name against it: \<open>*\<close> is any run of characters (slashes included), \<open>?\<close> any one
  character, \<open>[seq]\<close> a character class (\<open>[!seq]\<close> its complement) and every other
  character stands for itself. A \<open>[\<close> with no closing \<open>]\<close> is a literal. Inside a class
  a hyphen between two characters makes a range, and a range whose bounds are in the
  wrong order is deleted before the class is read (\<open>fnmatch.translate\<close> of CPython 3.12).
  \<open>os.path.normcase\<close> is the identity (POSIX).
\<close>

datatype glob_item = Star | AnyChar | Lit char | Cls bool "(char \<times> char) list"

text \<open>
  The text \<open>stuff\<close> between the brackets is cut into chunks at the hyphens that make
  ranges: the first character (the first two after a leading \<open>!\<close>) and the two
  characters after a range hyphen cannot be one. \<open>skip\<close> counts the characters still
  to pass, \<open>cur\<close> is the chunk read so far.
\<close>

fun chunks_scan :: "nat \<Rightarrow> string \<Rightarrow> string \<Rightarrow> string list" where
  "chunks_scan skip cur [] = [cur]"
| "chunks_scan skip cur (c # cs) =
     (if c = CHR ''-'' \<and> skip = 0 then cur # chunks_scan 2 [] cs
      else chunks_scan (skip - 1) (cur @ [c]) cs)"

text \<open>A hyphen at the very end is no range: it goes back to the chunk before it.\<close>

definition fix_last :: "string list \<Rightarrow> string list" where
  "fix_last chunks =
     (if 2 \<le> length chunks \<and> last chunks = []
      then butlast (butlast chunks) @ [last (butlast chunks) @ ''-'']
      else chunks)"

text \<open>
  A range whose bounds are in the wrong order is deleted, from the last range back
  to the first: its two bounds go, and the chunks on both sides become one.
\<close>

fun drop_empty_ranges :: "string list \<Rightarrow> string list" where
  "drop_empty_ranges (c # d # rest) =
     (case drop_empty_ranges (d # rest) of
        [] \<Rightarrow> [c]
      | d' # rest' \<Rightarrow>
          if c \<noteq> [] \<and> d' \<noteq> [] \<and> (of_char (hd d') :: nat) < of_char (last c)
          then (butlast c @ tl d') # rest'
          else c # d' # rest')"
| "drop_empty_ranges chunks = chunks"

text \<open>
  The class that the regular expression \<open>[c0-c1-...-cn]\<close> stands for, the chunks joined
  by range hyphens and every character inside a chunk escaped: the last character of
  a chunk and the first of the next bound a range, the others stand for themselves.
  A hyphen with nothing before it (an empty first chunk) is a literal hyphen.
\<close>

fun chunk_ranges :: "string list \<Rightarrow> (char \<times> char) list" where
  "chunk_ranges [] = []"
| "chunk_ranges [c] = map (\<lambda>x. (x, x)) c"
| "chunk_ranges (c # d # rest) =
     (if c = [] \<or> d = [] then map (\<lambda>x. (x, x)) c @ chunk_ranges (d # rest)
      else map (\<lambda>x. (x, x)) (butlast c) @ (last c, hd d) # chunk_ranges (tl d # rest))"

definition class_body :: "string list \<Rightarrow> (char \<times> char) list" where
  "class_body chunks =
     (case chunks of
        [] # d # rest \<Rightarrow> (CHR ''-'', CHR ''-'') # chunk_ranges (d # rest)
      | _ \<Rightarrow> chunk_ranges chunks)"

text \<open>
  The class of a bracket expression. The negation mark is read after the empty ranges
  are gone, from the first character of what is left.
\<close>

definition bracket_class :: "string \<Rightarrow> glob_item" where
  "bracket_class stuff =
     (let chunks =
            (if CHR ''-'' \<in> set stuff
             then drop_empty_ranges
                    (fix_last (chunks_scan (if hd stuff = CHR ''!'' then 2 else 1) [] stuff))
             else [stuff])
      in case chunks of
           (c # cs) # rest \<Rightarrow>
             if c = CHR ''!'' then Cls True (class_body (cs # rest))
             else Cls False (class_body chunks)
         | _ \<Rightarrow> Cls False (class_body chunks))"

text \<open>
  The scan for the closing bracket in the text \<open>r\<close> after a \<open>[\<close>: a leading \<open>!\<close> and
  then a leading \<open>]\<close> are stepped over, and the next \<open>]\<close> closes the class.
\<close>

definition bracket_end :: "string \<Rightarrow> nat option" where
  "bracket_end r =
     (let j0 = (if 0 < length r \<and> r ! 0 = CHR ''!'' then 1 else 0);
          j1 = (if j0 < length r \<and> r ! j0 = CHR '']'' then j0 + 1 else j0);
          j = j1 + length (takeWhile (\<lambda>c. c \<noteq> CHR '']'') (drop j1 r))
      in if j \<ge> length r then None else Some j)"

function translate :: "string \<Rightarrow> glob_item list" where
  "translate [] = []"
| "translate (c # r) =
     (if c = CHR ''*'' then Star # translate r
      else if c = CHR ''?'' then AnyChar # translate r
      else if c = CHR ''['' then
        (case bracket_end r of
           None \<Rightarrow> Lit c # translate r
         | Some j \<Rightarrow>
             bracket_class (take j r) # translate (drop (Suc j) r))
      else Lit c # translate r)"
  by pat_completeness auto
termination
  by (relation "measure length") auto

definition in_range :: "char \<Rightarrow> char \<times> char \<Rightarrow> bool" where
  "in_range c r = ((of_char (fst r) :: nat) \<le> of_char c \<and> (of_char c :: nat) \<le> of_char (snd r))"

fun item_ok :: "glob_item \<Rightarrow> char \<Rightarrow> bool" where
  "item_ok Star c = True"
| "item_ok AnyChar c = True"
| "item_ok (Lit d) c = (c = d)"
| "item_ok (Cls neg rs) c = (list_ex (in_range c) rs \<noteq> neg)"

fun glob_match :: "glob_item list \<Rightarrow> string \<Rightarrow> bool" where
  "glob_match [] s = (s = [])"
| "glob_match (Star # ts) [] = glob_match ts []"
| "glob_match (Star # ts) (c # s) = (glob_match ts (c # s) \<or> glob_match (Star # ts) s)"
| "glob_match (t # ts) [] = False"
| "glob_match (t # ts) (c # s) = (item_ok t c \<and> glob_match ts s)"

definition fnmatch :: "string \<Rightarrow> string \<Rightarrow> bool" where
  "fnmatch name pat = glob_match (translate pat) name"

section \<open>Pattern Matcher: \<open>should_exclude\<close>\<close>

definition DEFAULT_EXCLUSIONS :: "string list" where
  "DEFAULT_EXCLUSIONS =
    [''yarn.lock'', ''package-lock.json'', ''pnpm-lock.yaml'', ''poetry.lock'',
     ''Pipfile.lock'', ''uv.lock'', ''go.sum'', ''Gemfile.lock'', ''composer.lock'',
     ''Cargo.lock'', ''node_modules/*'', ''vendor/*'', ''venv/*'', ''.venv/*'', ''env/*'',
     ''.env/*'', ''__pycache__/*'', ''.pytest_cache/*'', ''.mypy_cache/*'', ''.tox/*'',
     ''site-packages/*'', ''dist-packages/*'', ''dist/*'', ''build/*'', ''target/*'',
     ''out/*'', ''.next/*'', ''.nuxt/*'', ''coverage/*'', ''.coverage'', ''htmlcov/*'',
     ''*.egg-info/*'', ''.idea/*'', ''.vscode/*'', ''*.swp'', ''*.swo'', ''.DS_Store'',
     ''Thumbs.db'', ''*.png'', ''*.jpg'', ''*.jpeg'', ''*.gif'', ''*.ico'', ''*.svg'',
     ''*.webp'', ''*.bmp'', ''*.tiff'', ''*.pdf'', ''*.zip'', ''*.tar'', ''*.gz'', ''*.rar'',
     ''*.7z'', ''*.woff'', ''*.woff2'', ''*.ttf'', ''*.eot'', ''*.mp3'', ''*.mp4'', ''*.wav'',
     ''*.avi'', ''*.mov'', ''*.pyc'', ''*.pyo'', ''*.class'', ''*.o'', ''*.so'', ''*.dll'',
     ''*.exe'', ''*.jar'', ''*.war'', ''*.min.js'', ''*.min.css'', ''*.map'', ''*.bundle.js'',
     ''*.chunk.js'', ''*.tfstate'', ''*.tfstate.backup'', ''.terraform/*'',
     ''.terraform.lock.hcl'', ''*.log'', ''test/fixtures/*'', ''tests/fixtures/*'',
     ''__snapshots__/*'', ''docs/_build/*'', ''site/*'', ''.docusaurus/*'', ''*.generated.*'',
     ''*.auto.*'', ''package-lock.json'']"

text \<open>
  The inner loop \<open>for i, part in enumerate(parts)\<close>: the list argument is \<open>parts[i:]\<close>, its
  head is \<open>part\<close>.
\<close>

fun check_parts :: "string \<Rightarrow> string list \<Rightarrow> bool" where
  "check_parts pattern_lower [] = False"
| "check_parts pattern_lower (part # rest) =
     (if fnmatch part (rstrip_chars ''/*'' pattern_lower) then True
      else if fnmatch (join ''/'' (part # rest)) pattern_lower then True
      else check_parts pattern_lower rest)"

text \<open>The outer loop \<open>for pattern in exclusion_patterns\<close>, returning at the first hit.\<close>

fun exclude_loop :: "string \<Rightarrow> string \<Rightarrow> string list \<Rightarrow> bool" where
  "exclude_loop filepath filepath_lower [] = False"
| "exclude_loop filepath filepath_lower (pattern # patterns) =
     (let pattern_lower = lower pattern in
      if fnmatch filepath_lower pattern_lower then True
      else if fnmatch filepath_lower (''*/'' @ pattern_lower) then True
      else if CHR ''/'' \<in> set filepath
              \<and> check_parts pattern_lower (split_on CHR ''/'' filepath_lower) then True
      else exclude_loop filepath filepath_lower patterns)"

definition should_exclude :: "string \<Rightarrow> string list \<Rightarrow> bool" where
  "should_exclude filepath exclusion_patterns =
     exclude_loop filepath (lower filepath) exclusion_patterns"

section \<open>History Extractor\<close>

text \<open>
  Each query parses the text that \<open>run_git_command\<close> returned: \<open>None\<close> when the git command
  failed, the standard output otherwise. The argument \<open>exclusions\<close> is \<open>None\<close> when the
  caller passes no pattern list.
\<close>

definition exclusions_or_default :: "string list option \<Rightarrow> string list" where
  "exclusions_or_default exclusions =
     (case exclusions of None \<Rightarrow> DEFAULT_EXCLUSIONS | Some e \<Rightarrow> e)"

subsection \<open>Revision frequency\<close>

text \<open>\<open>file_revisions[line] += 1\<close> on a \<open>defaultdict(int)\<close>.\<close>

definition dict_incr :: "string \<Rightarrow> (string, int) dict \<Rightarrow> (string, int) dict" where
  "dict_incr k d = dict_set k ((case map_of d k of None \<Rightarrow> 0 | Some n \<Rightarrow> n) + 1) d"

fun count_revisions :: "string list \<Rightarrow> string list \<Rightarrow> (string, int) dict \<Rightarrow> (string, int) dict" where
  "count_revisions exclusions [] file_revisions = file_revisions"
| "count_revisions exclusions (raw # rest) file_revisions =
     (let line = strip raw in
      if line \<noteq> [] \<and> \<not> startswith ''commit'' line then
        (if \<not> should_exclude line exclusions
         then count_revisions exclusions rest (dict_incr line file_revisions)
         else count_revisions exclusions rest file_revisions)
      else count_revisions exclusions rest file_revisions)"

definition get_revision_frequency :: "string option \<Rightarrow> string list option \<Rightarrow> (string, int) dict" where
  "get_revision_frequency output exclusions =
     (case output of
        None \<Rightarrow> []
      | Some out \<Rightarrow> count_revisions (exclusions_or_default exclusions) (split_on CHR 0x0A out) [])"

subsection \<open>The exclusion rule as the specification words it\<close>

text \<open>
  The specification's three rules, read literally: the pattern matches the whole path;
  the pattern prefixed with \<open>*/\<close> matches the whole path; or, at a split point of the
  path (a path with no \<open>/\<close> has none), the segment matches the pattern without its
  trailing \<open>/*\<close>, or the rest of the path from that segment on matches the pattern.
  \<open>strip_suffix\<close> removes the two-character suffix when the pattern ends with it.
\<close>

definition strip_suffix :: "string \<Rightarrow> string \<Rightarrow> string" where
  "strip_suffix suf s =
     (if length suf \<le> length s \<and> drop (length s - length suf) s = suf
      then take (length s - length suf) s else s)"

definition isExcluded_spec :: "string \<Rightarrow> string list \<Rightarrow> bool" where
  "isExcluded_spec path patterns =
     list_ex (\<lambda>pattern.
        let p = lower pattern; f = lower path; parts = split_on CHR ''/'' f in
        fnmatch f p
        \<or> fnmatch f (''*/'' @ p)
        \<or> (CHR ''/'' \<in> set path
            \<and> list_ex (\<lambda>i. fnmatch (parts ! i) (strip_suffix ''/*'' p)
                            \<or> fnmatch (join ''/'' (drop i parts)) p) [0..<length parts]))
       patterns"

subsection \<open>Churn\<close>

text \<open>
  \<open>int(s)\<close> on a text field: surrounding white space is dropped (tab, line feed,
  vertical tab, form feed, carriage return and space; not the separators 0x1C..0x1F
  that \<open>str.strip\<close> removes), one sign is allowed, and the digits may be grouped by
  single underscores between digits. A field of more than 4300 digits is refused
  (the default limit of CPython 3.11 and later). \<open>None\<close> is the \<open>ValueError\<close> of the
  source. Digits and white space outside ASCII are not modelled.
\<close>

definition int_space :: "char \<Rightarrow> bool" where
  "int_space c = (c \<in> set [CHR 0x09, CHR 0x0A, CHR 0x0B, CHR 0x0C, CHR 0x0D, CHR 0x20])"

definition int_strip :: "string \<Rightarrow> string" where
  "int_strip s = rev (dropWhile int_space (rev (dropWhile int_space s)))"

definition digit_val :: "char \<Rightarrow> nat option" where
  "digit_val c = map_of (zip ''0123456789'' [0, 1, 2, 3, 4, 5, 6, 7, 8, 9]) c"

fun parse_digits :: "string \<Rightarrow> nat \<Rightarrow> bool \<Rightarrow> nat option" where
  "parse_digits [] acc after_digit = (if after_digit then Some acc else None)"
| "parse_digits (c # cs) acc after_digit =
     (if c = CHR ''_'' then (if after_digit then parse_digits cs acc False else None)
      else (case digit_val c of
              None \<Rightarrow> None
            | Some d \<Rightarrow> parse_digits cs (10 * acc + d) True))"

definition py_int :: "string \<Rightarrow> int option" where
  "py_int s =
     (case int_strip s of
        [] \<Rightarrow> None
      | c # cs \<Rightarrow>
          if 4300 < length (filter (\<lambda>d. digit_val d \<noteq> None) (c # cs)) then None
          else if c = CHR ''+'' then map_option int (parse_digits cs 0 False)
          else if c = CHR ''-'' then map_option (\<lambda>n. - int n) (parse_digits cs 0 False)
          else map_option int (parse_digits (c # cs) 0 False))"

record churn_rec =
  added :: int
  deleted :: int

text \<open>
  One numstat line. The statement \<open>file_churn[filename]['added'] += int(added) ...\<close>
  evaluates its target first: the subscription \<open>file_churn[filename]\<close> of the
  \<open>defaultdict\<close> creates the entry \<open>{'added': 0, 'deleted': 0}\<close> of a new file before
  \<open>int(added)\<close> runs. A \<open>ValueError\<close> leaves the loop body at that point (\<open>continue\<close>),
  with everything written so far kept.
\<close>

definition churn_touch :: "string \<Rightarrow> (string, churn_rec) dict \<Rightarrow> (string, churn_rec) dict" where
  "churn_touch filename d =
     (case map_of d filename of
        None \<Rightarrow> dict_set filename \<lparr>added = 0, deleted = 0\<rparr> d
      | Some r \<Rightarrow> d)"

definition churn_field :: "string \<Rightarrow> int option" where
  "churn_field s = (if s \<noteq> ''-'' then py_int s else Some 0)"

definition churn_line :: "string list \<Rightarrow> string \<Rightarrow> (string, churn_rec) dict \<Rightarrow> (string, churn_rec) dict" where
  "churn_line exclusions line file_churn =
     (case split_on CHR 0x09 line of
        [a, b, filename] \<Rightarrow>
          if should_exclude filename exclusions then file_churn
          else
            (let d0 = churn_touch filename file_churn in
             case churn_field a of
               None \<Rightarrow> d0
             | Some x \<Rightarrow>
                 (let d1 = (case map_of d0 filename of
                              None \<Rightarrow> d0
                            | Some r \<Rightarrow> dict_set filename (r\<lparr>added := added r + x\<rparr>) d0);
                      d2 = churn_touch filename d1 in
                  case churn_field b of
                    None \<Rightarrow> d2
                  | Some y \<Rightarrow>
                      (case map_of d2 filename of
                         None \<Rightarrow> d2
                       | Some r \<Rightarrow> dict_set filename (r\<lparr>deleted := deleted r + y\<rparr>) d2)))
      | parts \<Rightarrow> file_churn)"

fun churn_loop :: "string list \<Rightarrow> string list \<Rightarrow> (string, churn_rec) dict \<Rightarrow> (string, churn_rec) dict" where
  "churn_loop exclusions [] file_churn = file_churn"
| "churn_loop exclusions (line # rest) file_churn =
     churn_loop exclusions rest (churn_line exclusions line file_churn)"

definition get_churn_data :: "string option \<Rightarrow> string list option \<Rightarrow> (string, churn_rec) dict" where
  "get_churn_data output exclusions =
     (case output of
        None \<Rightarrow> []
      | Some out \<Rightarrow> churn_loop (exclusions_or_default exclusions) (split_on CHR 0x0A out) [])"

subsection \<open>Commit metadata\<close>

record commit =
  hash :: string
  author :: string
  date :: string
  message :: string

text \<open>The payload of a marker line: \<open>line[7:].split('|', 3)\<close>, at least four fields.\<close>

definition parse_commit :: "string \<Rightarrow> commit option" where
  "parse_commit line =
     (let parts = split_max CHR ''|'' 3 (drop 7 line) in
      if length parts \<ge> 4
      then Some \<lparr>hash = parts ! 0, author = parts ! 1, date = parts ! 2, message = parts ! 3\<rparr>
      else None)"

text \<open>\<open>file_commits[line].append(current_commit.copy())\<close> on a \<open>defaultdict(list)\<close>.\<close>

definition dict_append :: "string \<Rightarrow> 'v \<Rightarrow> (string, 'v list) dict \<Rightarrow> (string, 'v list) dict" where
  "dict_append k v d = dict_set k ((case map_of d k of None \<Rightarrow> [] | Some vs \<Rightarrow> vs) @ [v]) d"

text \<open>
  The state of the loop is the pair of \<open>file_commits\<close> and \<open>current_commit\<close>; \<open>None\<close> is
  the only falsy value \<open>current_commit\<close> takes, a commit record always has its four keys.
\<close>

definition commit_line ::
  "string list \<Rightarrow> string \<Rightarrow> (string, commit list) dict \<times> commit option
     \<Rightarrow> (string, commit list) dict \<times> commit option" where
  "commit_line exclusions raw st =
     (let line = strip raw; file_commits = fst st; current_commit = snd st in
      if line = [] then st
      else if startswith ''COMMIT:'' line then (file_commits, parse_commit line)
      else (case current_commit of
              None \<Rightarrow> st
            | Some c \<Rightarrow>
                if CHR ''/'' \<in> set line \<or> CHR ''.'' \<in> set line then
                  (if \<not> should_exclude line exclusions
                   then (dict_append line c file_commits, current_commit)
                   else st)
                else st))"

fun commit_loop ::
  "string list \<Rightarrow> string list \<Rightarrow> (string, commit list) dict \<times> commit option
     \<Rightarrow> (string, commit list) dict \<times> commit option" where
  "commit_loop exclusions [] st = st"
| "commit_loop exclusions (raw # rest) st =
     commit_loop exclusions rest (commit_line exclusions raw st)"

definition get_commit_messages ::
  "string option \<Rightarrow> string list option \<Rightarrow> (string, commit list) dict" where
  "get_commit_messages output exclusions =
     (case output of
        None \<Rightarrow> []
      | Some out \<Rightarrow>
          fst (commit_loop (exclusions_or_default exclusions) (split_on CHR 0x0A out) ([], None)))"

section \<open>Cache Layer: the validity check of \<open>load_cache\<close>\<close>

datatype py_error =
  ZeroDivisionError | OverflowError | KeyError | IndexError | AttributeError | OSError
  | UnicodeDecodeError | RecursionError

text \<open>
  A git query of the cache helpers ends in one of three ways: the command succeeds and
  prints its output, it exits with an error (\<open>CalledProcessError\<close>, which the helper turns
  into \<open>None\<close>), or it cannot be started (\<open>OSError\<close>, which the helper lets through).
\<close>

datatype git_run = Stdout string | CalledProcessError | CannotRun

definition get_git_head_hash :: "git_run \<Rightarrow> py_error + string option" where
  "get_git_head_hash run =
     (case run of
        Stdout out \<Rightarrow> Inr (Some (strip out))
      | CalledProcessError \<Rightarrow> Inr None
      | CannotRun \<Rightarrow> Inl OSError)"

definition get_git_commit_count :: "git_run \<Rightarrow> py_error + string option" where
  "get_git_commit_count run =
     (case run of
        Stdout out \<Rightarrow> Inr (Some (strip out))
      | CalledProcessError \<Rightarrow> Inr None
      | CannotRun \<Rightarrow> Inl OSError)"

text \<open>
  The value stored under a key of the cached JSON document: \<open>null\<close>, a string, or a value
  of another JSON type. \<open>cached.get(key)\<close> is \<open>None\<close> when the key is absent.
\<close>

datatype jval = JNull | JStr string | JOther

record 'a cached =
  git_head :: "jval option"
  commit_count :: "jval option"
  payload :: 'a

text \<open>Python's \<open>==\<close> between a helper's result and \<open>cached.get(key)\<close>.\<close>

fun py_eq :: "string option \<Rightarrow> jval option \<Rightarrow> bool" where
  "py_eq None None = True"
| "py_eq None (Some JNull) = True"
| "py_eq (Some s) (Some (JStr t)) = (s = t)"
| "py_eq current stored = False"

text \<open>
  What is found at the cache path: nothing, a file that cannot be opened or read
  (\<open>IOError\<close>), a file whose bytes are not text in the encoding of the platform
  (\<open>UnicodeDecodeError\<close>), text that is not JSON, JSON nested too deeply for the parser
  (\<open>RecursionError\<close>), JSON that is not an object, or a document. The \<open>except\<close> clause
  of the source catches \<open>JSONDecodeError\<close>, \<open>KeyError\<close> and \<open>IOError\<close> only; the other
  errors leave \<open>load_cache\<close>.
\<close>

datatype 'a cache_file =
  Missing | Unreadable | Undecodable | NotJson | TooDeep | NotObject | Doc "'a cached"

definition load_cache ::
  "'a cache_file \<Rightarrow> git_run \<Rightarrow> git_run \<Rightarrow> py_error + ('a cached option \<times> bool)" where
  "load_cache file head_run count_run =
     (case file of
        Missing \<Rightarrow> Inr (None, False)
      | Unreadable \<Rightarrow> Inr (None, False)
      | Undecodable \<Rightarrow> Inl UnicodeDecodeError
      | NotJson \<Rightarrow> Inr (None, False)
      | TooDeep \<Rightarrow> Inl RecursionError
      | NotObject \<Rightarrow>
          (case get_git_head_hash head_run of
             Inl e \<Rightarrow> Inr (None, False)
           | Inr current_head \<Rightarrow> Inl AttributeError)
      | Doc cached \<Rightarrow>
          (case get_git_head_hash head_run of
             Inl e \<Rightarrow> Inr (None, False)
           | Inr current_head \<Rightarrow>
               (case get_git_commit_count count_run of
                  Inl e \<Rightarrow> Inr (None, False)
                | Inr current_count \<Rightarrow>
                    if py_eq current_head (git_head cached)
                       \<and> py_eq current_count (commit_count cached)
                    then Inr (Some cached, True)
                    else Inr (Some cached, False))))"

section \<open>Floating-point numbers\<close>

text \<open>
  A Python float is an IEEE 754 double; a finite double is modelled by the rational
  number it stands for, and each operation rounds its exact result to the nearest
  double, ties to the even significand. (The two zeros are one value here; they compare
  equal in Python.)

  \<open>rhe\<close> rounds to the nearest integer, ties to even. \<open>flog2 x\<close> is the exponent \<open>e\<close>
  with \<open>2^e \<le> |x| < 2^(e+1)\<close>. \<open>fl\<close> is the rounding to a double with 53 significant
  bits and least exponent \<open>-1074\<close>, not bounded above: an operation overflows when the
  rounded magnitude reaches \<open>2^1024\<close>.
\<close>

definition rhe :: "rat \<Rightarrow> int" where
  "rhe x = (let f = \<lfloor>x\<rfloor>; d = x - of_int f in
            if d < 1 / 2 then f else if 1 / 2 < d then f + 1 else if even f then f else f + 1)"

definition flog2 :: "rat \<Rightarrow> int" where
  "flog2 x = (let a = fst (quotient_of \<bar>x\<bar>); b = snd (quotient_of \<bar>x\<bar>);
                  e = bitlen a - bitlen b in
              if 2 powi e \<le> \<bar>x\<bar> then e else e - 1)"

definition fl :: "rat \<Rightarrow> rat" where
  "fl x = (if x = 0 then 0
           else (let p = max (flog2 x - 52) (- 1074) in of_int (rhe (x / 2 powi p)) * 2 powi p))"

text \<open>
  \<open>a / b\<close> on integers: the correctly rounded quotient, \<open>ZeroDivisionError\<close> for a zero
  divisor and \<open>OverflowError\<close> when the quotient is too large for a float.
\<close>

definition int_truediv :: "int \<Rightarrow> int \<Rightarrow> py_error + rat" where
  "int_truediv a b =
     (if b = 0 then Inl ZeroDivisionError
      else (let q = fl (of_int a / of_int b) in
            if 2 ^ 1024 \<le> \<bar>q\<bar> then Inl OverflowError else Inr q))"

text \<open>The largest finite double.\<close>

definition dmax :: rat where
  "dmax = (2 ^ 53 - 1) * 2 ^ 971"

text \<open>
  Product and sum of two floats. The score is the only place where they are used: on
  a finite quotient times \<open>0.7\<close> and a quotient between 0 and 1 times \<open>0.3\<close>, where the
  products and their sum stay below \<open>2^1024\<close> (lemmas \<open>score_finite\<close> and
  \<open>hotspot_score_finite\<close>), so no infinity is modelled.
\<close>

definition fmul :: "rat \<Rightarrow> rat \<Rightarrow> rat" where
  "fmul x y = fl (x * y)"

definition fadd :: "rat \<Rightarrow> rat \<Rightarrow> rat" where
  "fadd x y = fl (x + y)"

text \<open>
  \<open>round(x, ndigits)\<close> on a float: the shortest-decimal machinery rounds the exact value
  of \<open>x\<close> to \<open>ndigits\<close> decimal places, ties to even, and the decimal is read back as the
  nearest double.
\<close>

definition py_round :: "rat \<Rightarrow> nat \<Rightarrow> rat" where
  "py_round x ndigits = fl (of_int (rhe (x * 10 ^ ndigits)) / 10 ^ ndigits)"

section \<open>Hotspot Scorer\<close>

text \<open>
  A hotspot entry: the dictionary that \<open>calculate_hotspots\<close> builds for a file. A key that
  may be absent is an option; the field \<open>entry_k\<close> is the key \<open>k\<close>, and \<open>commits\<close> is added by
  the caller. A float is the rational number it stands for.
\<close>

record entry =
  entry_file :: string
  entry_revisions :: int
  entry_lines :: int
  entry_hotspot_score :: rat
  entry_norm_revisions :: rat
  entry_churn_added :: "int option"
  entry_churn_deleted :: "int option"
  entry_total_churn :: "int option"
  entry_authors :: "int option"
  entry_commits :: "commit list option"

text \<open>\<open>max(d.values()) if d else 1\<close>.\<close>

definition max_or_one :: "(string, int) dict \<Rightarrow> int" where
  "max_or_one d = (if d = [] then 1 else Max (set (dict_values d)))"

text \<open>
  The body of the loop for one file: \<open>Inr None\<close> is the \<open>continue\<close> of a file with fewer
  than ten lines. The optional maps \<open>churn\<close> and \<open>authors\<close> are \<open>None\<close> when the caller
  passes none; an empty map is falsy and holds no key, so both tests of
  \<open>churn and filepath in churn\<close> are the lookup. The literals \<open>0.7\<close> and \<open>0.3\<close> are the
  doubles nearest to \<open>7/10\<close> and \<open>3/10\<close>.
\<close>

definition hotspot_entry ::
  "(string, int) dict \<Rightarrow> (string, int) dict \<Rightarrow> (string, churn_rec) dict option
     \<Rightarrow> (string, int) dict option \<Rightarrow> int \<Rightarrow> int \<Rightarrow> string \<Rightarrow> py_error + entry option" where
  "hotspot_entry revisions loc churn authors max_revisions max_loc filepath =
     (case map_of revisions filepath of
        None \<Rightarrow> Inl KeyError
      | Some rev_count \<Rightarrow>
     (case map_of loc filepath of
        None \<Rightarrow> Inl KeyError
      | Some lines \<Rightarrow>
          if lines < 10 then Inr None
          else
     (case int_truediv rev_count max_revisions of
        Inl err \<Rightarrow> Inl err
      | Inr norm_revisions \<Rightarrow>
     (case int_truediv lines max_loc of
        Inl err \<Rightarrow> Inl err
      | Inr norm_loc \<Rightarrow>
          (let hotspot_score =
                 fadd (fmul norm_revisions (fl (7 / 10))) (fmul norm_loc (fl (3 / 10)));
               file_churn = (case churn of None \<Rightarrow> None | Some c \<Rightarrow> map_of c filepath);
               file_authors = (case authors of None \<Rightarrow> None | Some a \<Rightarrow> map_of a filepath)
           in Inr (Some
                \<lparr>entry_file = filepath,
                 entry_revisions = rev_count,
                 entry_lines = lines,
                 entry_hotspot_score = py_round hotspot_score 4,
                 entry_norm_revisions = py_round norm_revisions 4,
                 entry_churn_added = map_option added file_churn,
                 entry_churn_deleted = map_option deleted file_churn,
                 entry_total_churn = map_option (\<lambda>r. added r + deleted r) file_churn,
                 entry_authors = file_authors,
                 entry_commits = None\<rparr>))))))"

text \<open>The loop \<open>for filepath in common_files\<close>, appending to \<open>hotspots\<close>.\<close>

fun hotspots_loop ::
  "(string, int) dict \<Rightarrow> (string, int) dict \<Rightarrow> (string, churn_rec) dict option
     \<Rightarrow> (string, int) dict option \<Rightarrow> int \<Rightarrow> int \<Rightarrow> string list \<Rightarrow> entry list
     \<Rightarrow> py_error + entry list" where
  "hotspots_loop revisions loc churn authors max_revisions max_loc [] hotspots = Inr hotspots"
| "hotspots_loop revisions loc churn authors max_revisions max_loc (filepath # rest) hotspots =
     (case hotspot_entry revisions loc churn authors max_revisions max_loc filepath of
        Inl err \<Rightarrow> Inl err
      | Inr None \<Rightarrow>
          hotspots_loop revisions loc churn authors max_revisions max_loc rest hotspots
      | Inr (Some entry) \<Rightarrow>
          hotspots_loop revisions loc churn authors max_revisions max_loc rest (hotspots @ [entry]))"

text \<open>
  \<open>hotspots.sort(key=..., reverse=True)\<close>: the stable sort on the reversed list, reversed
  again, so that entries of equal score keep their order.
\<close>

definition sort_by_score_desc :: "entry list \<Rightarrow> entry list" where
  "sort_by_score_desc hotspots = rev (sort_key entry_hotspot_score (rev hotspots))"

text \<open>
  \<open>common_files\<close> is a Python \<open>set\<close>, and the language does not fix the order in which
  the loop visits it. The model takes that order as its last argument: a list without
  repetition of the keys that both maps have (\<open>is_common_files\<close>).
\<close>

definition is_common_files :: "(string, int) dict \<Rightarrow> (string, int) dict \<Rightarrow> string list \<Rightarrow> bool" where
  "is_common_files revisions loc common_files =
     (distinct common_files
      \<and> set common_files = set (dict_keys revisions) \<inter> set (dict_keys loc))"

definition calculate_hotspots ::
  "(string, int) dict \<Rightarrow> (string, int) dict \<Rightarrow> (string, churn_rec) dict option
     \<Rightarrow> (string, int) dict option \<Rightarrow> string list \<Rightarrow> py_error + entry list" where
  "calculate_hotspots revisions loc churn authors common_files =
     (let max_revisions = max_or_one revisions;
          max_loc = max_or_one loc
      in case hotspots_loop revisions loc churn authors max_revisions max_loc common_files [] of
           Inl err \<Rightarrow> Inl err
         | Inr hotspots \<Rightarrow> Inr (sort_by_score_desc hotspots))"

text \<open>The example of the specification: two files, both above the ten-line floor.\<close>

abbreviation spec_revisions :: "(string, int) dict" where
  "spec_revisions \<equiv> [(''a.py'', 10), (''b.py'', 2)]"

abbreviation spec_loc :: "(string, int) dict" where
  "spec_loc \<equiv> [(''a.py'', 50), (''b.py'', 20)]"

abbreviation spec_entry_a :: entry where
  "spec_entry_a \<equiv>
     \<lparr>entry_file = ''a.py'', entry_revisions = 10, entry_lines = 50, entry_hotspot_score = 1,
      entry_norm_revisions = 1, entry_churn_added = None, entry_churn_deleted = None,
      entry_total_churn = None, entry_authors = None, entry_commits = None\<rparr>"

abbreviation spec_entry_b :: entry where
  "spec_entry_b \<equiv>
     \<lparr>entry_file = ''b.py'', entry_revisions = 2, entry_lines = 20,
      entry_hotspot_score = fl (13 / 50), entry_norm_revisions = fl (1 / 5),
      entry_churn_added = None, entry_churn_deleted = None,
      entry_total_churn = None, entry_authors = None, entry_commits = None\<rparr>"

text \<open>
  The entry of \<open>b.py\<close> when \<open>a.py\<close> has history and no line count: its score is
  rounded from \<open>0.43999999999999995\<close> to \<open>0.44\<close>.
\<close>

abbreviation rounded_entry_b :: entry where
  "rounded_entry_b \<equiv>
     \<lparr>entry_file = ''b.py'', entry_revisions = 2, entry_lines = 20,
      entry_hotspot_score = fl (11 / 25), entry_norm_revisions = fl (1 / 5),
      entry_churn_added = None, entry_churn_deleted = None,
      entry_total_churn = None, entry_authors = None, entry_commits = None\<rparr>"

section \<open>Hierarchy Builder\<close>

text \<open>
  A leaf of the tree carries the keys \<open>name\<close>, \<open>fullPath\<close>, \<open>size\<close>, \<open>revisions\<close>,
  \<open>hotspot_score\<close>, \<open>norm_revisions\<close> and, when the entry has them, \<open>authors\<close>, \<open>churn\<close>
  and \<open>commits\<close>.
\<close>

record leaf =
  leaf_name :: string
  leaf_fullPath :: string
  leaf_size :: int
  leaf_revisions :: int
  leaf_hotspot_score :: rat
  leaf_norm_revisions :: rat
  leaf_authors :: "int option"
  leaf_churn :: "int option"
  leaf_commits :: "commit list option"

definition make_leaf :: "string \<Rightarrow> entry \<Rightarrow> leaf" where
  "make_leaf filename e =
     \<lparr>leaf_name = filename, leaf_fullPath = entry_file e, leaf_size = entry_lines e,
      leaf_revisions = entry_revisions e, leaf_hotspot_score = entry_hotspot_score e,
      leaf_norm_revisions = entry_norm_revisions e, leaf_authors = entry_authors e,
      leaf_churn = entry_total_churn e, leaf_commits = entry_commits e\<rparr>"

text \<open>
  While the tree is built, a directory holds its children in a dictionary keyed by
  segment. The source walks down with the cursor \<open>current\<close> and writes through it; here
  \<open>insert_leaf\<close> returns the children dictionary with the write applied. Reading
  \<open>current['children']\<close> on a leaf raises \<open>KeyError\<close>.
\<close>

datatype dnode = DDir string "(string \<times> dnode) list" | DLeaf leaf

fun insert_leaf :: "string list \<Rightarrow> entry \<Rightarrow> (string, dnode) dict \<Rightarrow> py_error + (string, dnode) dict" where
  "insert_leaf [] e children = Inl IndexError"
| "insert_leaf [filename] e children = Inr (dict_set filename (DLeaf (make_leaf filename e)) children)"
| "insert_leaf (part # rest) e children =
     (case map_of children part of
        None \<Rightarrow>
          (case insert_leaf rest e [] of
             Inl err \<Rightarrow> Inl err
           | Inr sub \<Rightarrow> Inr (dict_set part (DDir part sub) children))
      | Some (DDir n sub0) \<Rightarrow>
          (case insert_leaf rest e sub0 of
             Inl err \<Rightarrow> Inl err
           | Inr sub \<Rightarrow> Inr (dict_set part (DDir n sub) children))
      | Some (DLeaf lf) \<Rightarrow> Inl KeyError)"

fun build_children :: "entry list \<Rightarrow> (string, dnode) dict \<Rightarrow> py_error + (string, dnode) dict" where
  "build_children [] children = Inr children"
| "build_children (e # es) children =
     (case insert_leaf (split_on CHR ''/'' (entry_file e)) e children of
        Inl err \<Rightarrow> Inl err
      | Inr children' \<Rightarrow> build_children es children')"

text \<open>
  \<open>convert_to_list\<close> replaces each dictionary by the list of its values and deletes the
  key \<open>children\<close> of a directory that has none (\<open>None\<close>).
\<close>

datatype hnode = Node string "hnode list option" | LeafNode leaf

function convert_to_list :: "dnode \<Rightarrow> hnode" where
  "convert_to_list (DLeaf lf) = LeafNode lf"
| "convert_to_list (DDir n children) =
     (let children_list = map convert_to_list (dict_values children) in
      if children_list \<noteq> [] then Node n (Some children_list) else Node n None)"
  by pat_completeness auto
termination
proof (relation "measure size")
  show "wf (measure (size :: dnode \<Rightarrow> nat))" by simp
next
  fix n :: string and children :: "(string \<times> dnode) list" and x :: dnode
  assume "x \<in> set (dict_values children)"
  then obtain k where "(k, x) \<in> set children"
    by (auto simp: dict_values_def)
  then have "size x < Suc (size_list (size_prod (\<lambda>_. 0) size) children)"
    by (induction children) auto
  then show "(x, DDir n children) \<in> measure size" by simp
qed

definition build_hierarchy :: "entry list \<Rightarrow> py_error + hnode" where
  "build_hierarchy hotspots =
     (case build_children hotspots [] of
        Inl err \<Rightarrow> Inl err
      | Inr children \<Rightarrow> Inr (convert_to_list (DDir ''root'' children)))"

text \<open>
  The leaves of a tree, each with the names of the nodes on the way down to it, from
  the node itself to the leaf.
\<close>

fun leaves :: "hnode \<Rightarrow> (string list \<times> leaf) list" where
  "leaves (LeafNode lf) = [([leaf_name lf], lf)]"
| "leaves (Node n None) = []"
| "leaves (Node n (Some cs)) = map (\<lambda>pl. (n # fst pl, snd pl)) (concat (map leaves cs))"

text \<open>
  The invariant of the build: below the directory of path \<open>pre\<close>, a leaf stands where the
  segments of its entry's path lead, and every directory is named by its key.
\<close>

inductive wf_node :: "entry set \<Rightarrow> string list \<Rightarrow> dnode \<Rightarrow> bool" for es where
  wf_leaf: "e \<in> es \<Longrightarrow> split_on CHR ''/'' (entry_file e) = pre
            \<Longrightarrow> wf_node es pre (DLeaf (make_leaf (last pre) e))"
| wf_dir: "pre \<noteq> [] \<Longrightarrow> (\<forall>kc\<in>set children. wf_node es (pre @ [fst kc]) (snd kc))
            \<Longrightarrow> wf_node es pre (DDir (last pre) children)"

text \<open>An entry with fixed metrics, for concrete runs of the builder.\<close>

definition sample_entry :: "string \<Rightarrow> entry" where
  "sample_entry p =
     \<lparr>entry_file = p, entry_revisions = 3, entry_lines = 20, entry_hotspot_score = 1,
      entry_norm_revisions = 1, entry_churn_added = None, entry_churn_deleted = None,
      entry_total_churn = None, entry_authors = Some 2, entry_commits = None\<rparr>"

section \<open>Properties\<close>

subsection \<open>Dictionaries\<close>

lemma dict_set_keys: "fst ` set (dict_set k v d) = insert k (fst ` set d)"
proof (induction d)
  case Nil
  show ?case by simp
next
  case (Cons kv d)
  obtain k' v' where kv: "kv = (k', v')" by (cases kv)
  show ?case using Cons.IH by (cases "k = k'") (auto simp: kv)
qed

subsection \<open>Revision frequency\<close>

lemma count_revisions_keys:
  "k \<in> set (dict_keys (count_revisions exclusions ls d)) \<Longrightarrow>
   k \<in> set (dict_keys d) \<or> \<not> startswith ''commit'' k"
proof (induction ls arbitrary: d)
  case Nil
  then show ?case by simp
next
  case (Cons raw rest)
  show ?case
  proof (cases "strip raw \<noteq> [] \<and> \<not> startswith ''commit'' (strip raw)
                 \<and> \<not> should_exclude (strip raw) exclusions")
    case True
    with Cons.prems have "k \<in> set (dict_keys (count_revisions exclusions rest (dict_incr (strip raw) d)))"
      by (simp add: Let_def)
    from Cons.IH [OF this] True show ?thesis
      unfolding dict_keys_def dict_incr_def set_map dict_set_keys by auto
  next
    case False
    with Cons.prems have "k \<in> set (dict_keys (count_revisions exclusions rest d))"
      by (auto simp: Let_def split: if_splits)
    from Cons.IH [OF this] show ?thesis .
  qed
qed

text \<open>
  C10. Revision-frequency extraction skips every log line that starts with \<open>commit\<close>:
  whatever the log output and the exclusion patterns are, a path that begins with
  \<open>commit\<close> is not a key of the resulting revision map.
\<close>

theorem revision_frequency_skips_commit_prefix:
  "startswith ''commit'' p \<Longrightarrow> p \<notin> set (dict_keys (get_revision_frequency output exclusions))"
proof
  assume p: "startswith ''commit'' p"
    and "p \<in> set (dict_keys (get_revision_frequency output exclusions))"
  then show False
    using count_revisions_keys [of p _ _ "[]"]
    by (auto simp: get_revision_frequency_def dict_keys_def split: option.splits)
qed

theorem revision_frequency_skips_commit_prefix_witness:
  "startswith ''commit'' ''commit_utils.py''
   \<and> ''commit_utils.py'' \<notin> set (dict_keys (get_revision_frequency
         (Some (''commit_utils.py'' @ [CHR 0x0A] @ ''src/main.py'')) (Some [])))
   \<and> get_revision_frequency
         (Some (''commit_utils.py'' @ [CHR 0x0A] @ ''src/main.py'')) (Some [])
       = [(''src/main.py'', 1)]"
proof -
  have pre: "startswith ''commit'' ''commit_utils.py''"
    by (simp add: startswith_def)
  have run: "get_revision_frequency
         (Some (''commit_utils.py'' @ [CHR 0x0A] @ ''src/main.py'')) (Some [])
       = [(''src/main.py'', 1)]"
    by (simp add: get_revision_frequency_def exclusions_or_default_def strip_def isspace_def
        startswith_def should_exclude_def dict_incr_def Let_def)
  from revision_frequency_skips_commit_prefix [OF pre] pre run show ?thesis
    by blast
qed

subsection \<open>Pattern Matcher\<close>

lemma check_parts_iff:
  "check_parts p parts \<longleftrightarrow>
     (\<exists>i<length parts. fnmatch (parts ! i) (rstrip_chars ''/*'' p)
                         \<or> fnmatch (join ''/'' (drop i parts)) p)"
proof (induction parts)
  case Nil
  show ?case by simp
next
  case (Cons part rest)
  let ?Q = "\<lambda>ps i. fnmatch (ps ! i) (rstrip_chars ''/*'' p) \<or> fnmatch (join ''/'' (drop i ps)) p"
  have "(\<exists>i<length (part # rest). ?Q (part # rest) i)
        \<longleftrightarrow> ?Q (part # rest) 0 \<or> (\<exists>j<length rest. ?Q (part # rest) (Suc j))"
    by (metis (no_types, lifting) Suc_less_eq length_Cons less_Suc_eq_0_disj zero_less_Suc)
  also have "\<dots> \<longleftrightarrow> ?Q (part # rest) 0 \<or> (\<exists>j<length rest. ?Q rest j)"
    by simp
  finally show ?case using Cons.IH by auto
qed

lemma exclude_loop_iff:
  "exclude_loop filepath lowered patterns \<longleftrightarrow>
     (\<exists>pattern\<in>set patterns.
        fnmatch lowered (lower pattern)
        \<or> fnmatch lowered (''*/'' @ lower pattern)
        \<or> (CHR ''/'' \<in> set filepath
            \<and> check_parts (lower pattern) (split_on CHR ''/'' lowered)))"
  by (induction patterns) (auto simp: Let_def)

lemmas glob_eval =
  should_exclude_def lower_def lower_char_def fnmatch_def bracket_end_def rstrip_chars_def

text \<open>
  C4, as the specification words it, fails: \<open>rstrip('/*')\<close> removes every trailing \<open>/\<close>
  and \<open>*\<close>, not the suffix \<open>/*\<close>. The pattern \<open>build/\<close> is cut down to \<open>build\<close>, so the
  code excludes \<open>build/x.py\<close> by its first segment, while none of the three rules, read
  literally, matches that path.
\<close>

theorem should_exclude_rstrip_counterexample:
  "should_exclude ''build/x.py'' [''build/'']
   \<and> \<not> isExcluded_spec ''build/x.py'' [''build/'']"
  by (simp add: glob_eval isExcluded_spec_def strip_suffix_def)

text \<open>
  C4, amended. \<open>should_exclude\<close> returns true if and only if some pattern matches the
  path, both lower-cased, under one of three rules: the pattern matches the whole path;
  the pattern prefixed with \<open>*/\<close> matches the whole path; or the path contains a \<open>/\<close>
  and, for some segment, the segment matches the pattern with every trailing \<open>/\<close> and
  \<open>*\<close> character removed, or the rest of the path from that segment on matches the
  pattern. The pattern \<open>node_modules/*\<close> excludes \<open>node_modules/foo.js\<close> and
  \<open>src/node_modules/foo.js\<close> and does not exclude \<open>my_node_modules_backup/foo.js\<close>.
\<close>

theorem should_exclude_three_rules:
  "(should_exclude path patterns \<longleftrightarrow>
      (\<exists>pattern\<in>set patterns.
         fnmatch (lower path) (lower pattern)
         \<or> fnmatch (lower path) (''*/'' @ lower pattern)
         \<or> (CHR ''/'' \<in> set path
             \<and> (\<exists>i<length (split_on CHR ''/'' (lower path)).
                   fnmatch (split_on CHR ''/'' (lower path) ! i) (rstrip_chars ''/*'' (lower pattern))
                   \<or> fnmatch (join ''/'' (drop i (split_on CHR ''/'' (lower path)))) (lower pattern)))))
   \<and> should_exclude ''node_modules/foo.js'' [''node_modules/*'']
   \<and> should_exclude ''src/node_modules/foo.js'' [''node_modules/*'']
   \<and> \<not> should_exclude ''my_node_modules_backup/foo.js'' [''node_modules/*'']"
proof -
  have general: "should_exclude path patterns \<longleftrightarrow>
      (\<exists>pattern\<in>set patterns.
         fnmatch (lower path) (lower pattern)
         \<or> fnmatch (lower path) (''*/'' @ lower pattern)
         \<or> (CHR ''/'' \<in> set path
             \<and> (\<exists>i<length (split_on CHR ''/'' (lower path)).
                   fnmatch (split_on CHR ''/'' (lower path) ! i) (rstrip_chars ''/*'' (lower pattern))
                   \<or> fnmatch (join ''/'' (drop i (split_on CHR ''/'' (lower path)))) (lower pattern))))"
    unfolding should_exclude_def exclude_loop_iff check_parts_iff ..
  have top: "should_exclude ''node_modules/foo.js'' [''node_modules/*'']"
    by (simp add: glob_eval)
  have nested: "should_exclude ''src/node_modules/foo.js'' [''node_modules/*'']"
    by (simp add: glob_eval)
  have other: "\<not> should_exclude ''my_node_modules_backup/foo.js'' [''node_modules/*'']"
    by (simp add: glob_eval)
  from general top nested other show ?thesis by blast
qed

subsection \<open>Commit metadata\<close>

lemma commit_line_malformed:
  assumes "startswith ''COMMIT:'' (strip bad)"
    and "length (split_max CHR ''|'' 3 (drop 7 (strip bad))) < 4"
  shows "commit_line exclusions bad st = (fst st, None)"
proof -
  from assms(1) have "strip bad \<noteq> []" by (auto simp: startswith_def)
  with assms show ?thesis by (simp add: commit_line_def parse_commit_def Let_def)
qed

lemma commit_line_orphan:
  assumes "\<not> (startswith ''COMMIT:'' (strip l)
              \<and> 4 \<le> length (split_max CHR ''|'' 3 (drop 7 (strip l))))"
  shows "commit_line exclusions l (fc, None) = (fc, None)"
  using assms by (auto simp: commit_line_def parse_commit_def Let_def)

lemma commit_loop_orphans:
  assumes "\<forall>l\<in>set files. \<not> (startswith ''COMMIT:'' (strip l)
              \<and> 4 \<le> length (split_max CHR ''|'' 3 (drop 7 (strip l))))"
  shows "commit_loop exclusions (files @ rest) (fc, None) = commit_loop exclusions rest (fc, None)"
  using assms by (induction files) (simp_all add: commit_line_orphan)

lemma commit_loop_append:
  "commit_loop exclusions (xs @ ys) st = commit_loop exclusions ys (commit_loop exclusions xs st)"
  by (induction xs arbitrary: st) simp_all

text \<open>
  C7. \<open>get_commit_messages\<close> is a total function of the log text (no step of its loop can
  raise). When the lines of the log are \<open>pre\<close>, then a marker line \<open>bad\<close> whose payload has
  fewer than four \<open>|\<close>-separated fields, then lines \<open>files\<close> none of which is a well-formed
  marker, then \<open>rest\<close>, the result is what the loop computes on \<open>rest\<close> alone, started
  from the commit lists collected over \<open>pre\<close> and with no current commit: neither the
  bad marker nor any of the lines after it, up to the next well-formed marker, adds an
  entry to any file's commit list.
\<close>

theorem malformed_marker_skipped:
  assumes "split_on CHR 0x0A out = pre @ bad # files @ rest"
    and "startswith ''COMMIT:'' (strip bad)"
    and "length (split_max CHR ''|'' 3 (drop 7 (strip bad))) < 4"
    and "\<forall>l\<in>set files. \<not> (startswith ''COMMIT:'' (strip l)
            \<and> 4 \<le> length (split_max CHR ''|'' 3 (drop 7 (strip l))))"
  shows "get_commit_messages (Some out) exclusions =
           fst (commit_loop (exclusions_or_default exclusions) rest
                  (fst (commit_loop (exclusions_or_default exclusions) pre ([], None)), None))"
proof -
  let ?E = "exclusions_or_default exclusions"
  let ?s = "commit_loop ?E pre ([], None)"
  have "commit_loop ?E (pre @ bad # files @ rest) ([], None)
        = commit_loop ?E (files @ rest) (commit_line ?E bad ?s)"
    by (simp add: commit_loop_append)
  also have "\<dots> = commit_loop ?E (files @ rest) (fst ?s, None)"
    by (simp add: commit_line_malformed [OF assms(2,3)])
  also have "\<dots> = commit_loop ?E rest (fst ?s, None)"
    by (rule commit_loop_orphans [OF assms(4)])
  finally show ?thesis by (simp add: get_commit_messages_def assms(1))
qed

theorem malformed_marker_skipped_witness:
  "startswith ''COMMIT:'' (strip ''COMMIT:abc|alice'')
   \<and> length (split_max CHR ''|'' 3 (drop 7 (strip ''COMMIT:abc|alice''))) < 4
   \<and> get_commit_messages
        (Some (''COMMIT:abc|alice'' @ [CHR 0x0A] @ ''src/a.py'' @ [CHR 0x0A]
               @ ''COMMIT:def|bob|2024-01-01|fix it'' @ [CHR 0x0A] @ ''src/b.py''))
        (Some [])
      = [(''src/b.py'',
          [\<lparr>hash = ''def'', author = ''bob'', date = ''2024-01-01'', message = ''fix it''\<rparr>])]"
proof -
  let ?out = "''COMMIT:abc|alice'' @ [CHR 0x0A] @ ''src/a.py'' @ [CHR 0x0A]
               @ ''COMMIT:def|bob|2024-01-01|fix it'' @ [CHR 0x0A] @ ''src/b.py''"
  have lines: "split_on CHR 0x0A ?out
      = [] @ ''COMMIT:abc|alice'' # [''src/a.py'']
           @ [''COMMIT:def|bob|2024-01-01|fix it'', ''src/b.py'']"
    by simp
  have marker: "startswith ''COMMIT:'' (strip ''COMMIT:abc|alice'')"
    by (simp add: strip_def isspace_def startswith_def)
  have short: "length (split_max CHR ''|'' 3 (drop 7 (strip ''COMMIT:abc|alice''))) < 4"
    by (simp add: strip_def isspace_def eval_nat_numeral)
  have orphans: "\<forall>l\<in>set [''src/a.py'']. \<not> (startswith ''COMMIT:'' (strip l)
            \<and> 4 \<le> length (split_max CHR ''|'' 3 (drop 7 (strip l))))"
    by (simp add: strip_def isspace_def startswith_def)
  have rest: "fst (commit_loop (exclusions_or_default (Some []))
                     [''COMMIT:def|bob|2024-01-01|fix it'', ''src/b.py'']
                     (fst (commit_loop (exclusions_or_default (Some [])) [] ([], None)), None))
      = [(''src/b.py'',
          [\<lparr>hash = ''def'', author = ''bob'', date = ''2024-01-01'', message = ''fix it''\<rparr>])]"
    by (simp add: exclusions_or_default_def commit_line_def parse_commit_def strip_def
        isspace_def startswith_def should_exclude_def dict_append_def Let_def eval_nat_numeral)
  from malformed_marker_skipped [OF lines marker short orphans, of "Some []"] rest marker short
  show ?thesis by simp
qed

subsection \<open>Churn\<close>

lemmas churn_eval =
  get_churn_data_def exclusions_or_default_def churn_line_def churn_touch_def churn_field_def
  py_int_def int_strip_def int_space_def digit_val_def should_exclude_def Let_def

text \<open>
  C6. A field \<open>-\<close> counts as zero, and well-formed records add up. A record whose
  \<open>deleted\<close> field is not a number is not skipped as a whole: its \<open>added\<close> count has
  already been written when \<open>int(deleted)\<close> raises, so the line \<open>5 TAB x TAB foo.py\<close>
  leaves \<open>foo.py\<close> with five added lines. A record whose \<open>added\<close> field is not a number
  leaves an entry with two zeros for its file. In both cases the churn map differs from
  the map of the log without that line, which is empty.
\<close>

theorem churn_bad_record_leaves_trace:
  "get_churn_data (Some (''5'' @ [CHR 0x09] @ ''x'' @ [CHR 0x09] @ ''foo.py'')) (Some [])
     = [(''foo.py'', \<lparr>added = 5, deleted = 0\<rparr>)]
   \<and> get_churn_data (Some (''x'' @ [CHR 0x09] @ ''5'' @ [CHR 0x09] @ ''foo.py'')) (Some [])
     = [(''foo.py'', \<lparr>added = 0, deleted = 0\<rparr>)]
   \<and> get_churn_data (Some []) (Some []) = []
   \<and> get_churn_data (Some (''-'' @ [CHR 0x09] @ ''-'' @ [CHR 0x09] @ ''a.bin'' @ [CHR 0x0A]
                            @ ''12'' @ [CHR 0x09] @ ''3'' @ [CHR 0x09] @ ''a.bin'')) (Some [])
     = [(''a.bin'', \<lparr>added = 12, deleted = 3\<rparr>)]"
proof -
  have partial: "get_churn_data (Some (''5'' @ [CHR 0x09] @ ''x'' @ [CHR 0x09] @ ''foo.py'')) (Some [])
     = [(''foo.py'', \<lparr>added = 5, deleted = 0\<rparr>)]"
    by (simp add: churn_eval)
  have zeros: "get_churn_data (Some (''x'' @ [CHR 0x09] @ ''5'' @ [CHR 0x09] @ ''foo.py'')) (Some [])
     = [(''foo.py'', \<lparr>added = 0, deleted = 0\<rparr>)]"
    by (simp add: churn_eval)
  have absent: "get_churn_data (Some []) (Some []) = ([] :: (string, churn_rec) dict)"
    by (simp add: churn_eval)
  have dash: "get_churn_data (Some (''-'' @ [CHR 0x09] @ ''-'' @ [CHR 0x09] @ ''a.bin'' @ [CHR 0x0A]
                            @ ''12'' @ [CHR 0x09] @ ''3'' @ [CHR 0x09] @ ''a.bin'')) (Some [])
     = [(''a.bin'', \<lparr>added = 12, deleted = 3\<rparr>)]"
    by (simp add: churn_eval)
  from partial zeros absent dash show ?thesis by blast
qed

subsection \<open>Cache validity\<close>

text \<open>
  C9. \<open>load_cache\<close> reports a stored document valid exactly when the stored head
  identifier equals the current one and the stored commit count equals the current one
  (Python's \<open>==\<close>); with a document at hand and both git queries answered, the flag is
  that conjunction, so a mismatch in either value gives \<open>False\<close>. Stored
  \<open>(head = X, count = 5)\<close> against current \<open>(X, 5)\<close> is valid, against \<open>(Y, 5)\<close> it is not.
\<close>

theorem load_cache_valid_iff:
  "((load_cache file head_run count_run = Inr (r, True)) \<longleftrightarrow>
      (\<exists>cached h c. file = Doc cached \<and> r = Some cached
         \<and> get_git_head_hash head_run = Inr h \<and> get_git_commit_count count_run = Inr c
         \<and> py_eq h (git_head cached) \<and> py_eq c (commit_count cached)))
   \<and> load_cache (Doc doc) (Stdout ho) (Stdout co)
       = Inr (Some doc, py_eq (Some (strip ho)) (git_head doc)
                        \<and> py_eq (Some (strip co)) (commit_count doc))
   \<and> load_cache (Doc \<lparr>git_head = Some (JStr ''X''), commit_count = Some (JStr ''5''), payload = ()\<rparr>)
         (Stdout (''X'' @ [CHR 0x0A])) (Stdout (''5'' @ [CHR 0x0A]))
       = Inr (Some \<lparr>git_head = Some (JStr ''X''), commit_count = Some (JStr ''5''), payload = ()\<rparr>, True)
   \<and> load_cache (Doc \<lparr>git_head = Some (JStr ''X''), commit_count = Some (JStr ''5''), payload = ()\<rparr>)
         (Stdout (''Y'' @ [CHR 0x0A])) (Stdout (''5'' @ [CHR 0x0A]))
       = Inr (Some \<lparr>git_head = Some (JStr ''X''), commit_count = Some (JStr ''5''), payload = ()\<rparr>, False)"
proof -
  have general: "(load_cache file head_run count_run = Inr (r, True)) \<longleftrightarrow>
      (\<exists>cached h c. file = Doc cached \<and> r = Some cached
         \<and> get_git_head_hash head_run = Inr h \<and> get_git_commit_count count_run = Inr c
         \<and> py_eq h (git_head cached) \<and> py_eq c (commit_count cached))"
    by (auto simp: load_cache_def split: cache_file.splits sum.splits)
  have flag: "load_cache (Doc doc) (Stdout ho) (Stdout co)
       = Inr (Some doc, py_eq (Some (strip ho)) (git_head doc)
                        \<and> py_eq (Some (strip co)) (commit_count doc))"
    by (simp add: load_cache_def get_git_head_hash_def get_git_commit_count_def)
  have same: "load_cache (Doc \<lparr>git_head = Some (JStr ''X''), commit_count = Some (JStr ''5''), payload = ()\<rparr>)
         (Stdout (''X'' @ [CHR 0x0A])) (Stdout (''5'' @ [CHR 0x0A]))
       = Inr (Some \<lparr>git_head = Some (JStr ''X''), commit_count = Some (JStr ''5''), payload = ()\<rparr>, True)"
    by (simp add: load_cache_def get_git_head_hash_def get_git_commit_count_def strip_def isspace_def)
  have other: "load_cache (Doc \<lparr>git_head = Some (JStr ''X''), commit_count = Some (JStr ''5''), payload = ()\<rparr>)
         (Stdout (''Y'' @ [CHR 0x0A])) (Stdout (''5'' @ [CHR 0x0A]))
       = Inr (Some \<lparr>git_head = Some (JStr ''X''), commit_count = Some (JStr ''5''), payload = ()\<rparr>, False)"
    by (simp add: load_cache_def get_git_head_hash_def get_git_commit_count_def strip_def isspace_def)
  from general flag same other show ?thesis by blast
qed

subsection \<open>Hierarchy Builder\<close>

lemma split_on_nonempty: "split_on sep s \<noteq> []"
  by (induction s) (auto split: list.splits)

lemma join_Cons_Cons: "join sep ((c # w) # ws) = c # join sep (w # ws)"
  by (cases ws) simp_all

lemma join_split_on: "join [sep] (split_on sep s) = s"
proof (induction s)
  case Nil
  show ?case by simp
next
  case (Cons c cs)
  obtain w ws where sp: "split_on sep cs = w # ws"
    using split_on_nonempty [of sep cs] by (cases "split_on sep cs") auto
  show ?case using Cons.IH by (simp add: sp join_Cons_Cons)
qed

lemma dict_set_subset: "set (dict_set k v d) \<subseteq> insert (k, v) (set d)"
  by (induction d) (auto split: if_splits)

lemma insert_leaf_wf:
  assumes "\<forall>kc\<in>set children. wf_node es (pre @ [fst kc]) (snd kc)"
    and "insert_leaf parts e children = Inr children'"
    and "split_on CHR ''/'' (entry_file e) = pre @ parts"
    and "e \<in> es"
  shows "\<forall>kc\<in>set children'. wf_node es (pre @ [fst kc]) (snd kc)"
  using assms
proof (induction parts e children arbitrary: pre children' rule: insert_leaf.induct)
  case (1 e children)
  then show ?case by simp
next
  case (2 filename e children)
  have "wf_node es (pre @ [filename]) (DLeaf (make_leaf (last (pre @ [filename])) e))"
    using 2 by (intro wf_leaf) simp_all
  then have new: "wf_node es (pre @ [filename]) (DLeaf (make_leaf filename e))" by simp
  from 2 have "children' = dict_set filename (DLeaf (make_leaf filename e)) children" by simp
  with dict_set_subset [of filename "DLeaf (make_leaf filename e)" children] new 2(1)
  show ?case by auto
next
  case (3 part v va e children)
  let ?rest = "v # va"
  have path: "split_on CHR ''/'' (entry_file e) = (pre @ [part]) @ ?rest"
    using 3(5) by simp
  show ?case
  proof (cases "map_of children part")
    case None
    with 3(4) obtain sub where sub: "insert_leaf ?rest e [] = Inr sub"
      and c': "children' = dict_set part (DDir part sub) children"
      by (auto split: sum.splits)
    have "\<forall>kc\<in>set sub. wf_node es ((pre @ [part]) @ [fst kc]) (snd kc)"
      by (rule 3(1) [OF None _ sub path 3(6)]) simp
    then have "wf_node es (pre @ [part]) (DDir (last (pre @ [part])) sub)"
      by (intro wf_dir) simp_all
    then have new: "wf_node es (pre @ [part]) (DDir part sub)" by simp
    from dict_set_subset [of part "DDir part sub" children] new 3(3) show ?thesis
      unfolding c' by auto
  next
    case (Some node)
    show ?thesis
    proof (cases node)
      case (DLeaf lf)
      with Some 3(4) show ?thesis by simp
    next
      case (DDir n sub0)
      with Some 3(4) obtain sub where sub: "insert_leaf ?rest e sub0 = Inr sub"
        and c': "children' = dict_set part (DDir n sub) children"
        by (auto split: sum.splits)
      from Some DDir have "(part, DDir n sub0) \<in> set children"
        by (auto dest: map_of_SomeD)
      with 3(3) have old: "wf_node es (pre @ [part]) (DDir n sub0)" by force
      then have n: "n = part"
        by (cases rule: wf_node.cases) simp
      from old have sub0: "\<forall>kc\<in>set sub0. wf_node es ((pre @ [part]) @ [fst kc]) (snd kc)"
        by (cases rule: wf_node.cases) simp
      have "\<forall>kc\<in>set sub. wf_node es ((pre @ [part]) @ [fst kc]) (snd kc)"
        by (rule 3(2) [OF Some DDir sub0 sub path 3(6)])
      then have "wf_node es (pre @ [part]) (DDir (last (pre @ [part])) sub)"
        by (intro wf_dir) simp_all
      then have new: "wf_node es (pre @ [part]) (DDir n sub)" by (simp add: n)
      from dict_set_subset [of part "DDir n sub" children] new 3(3) show ?thesis
        unfolding c' by auto
    qed
  qed
qed

lemma wf_node_mono: "wf_node es pre c \<Longrightarrow> es \<subseteq> es' \<Longrightarrow> wf_node es' pre c"
proof (induction rule: wf_node.induct)
  case (wf_leaf e pre)
  then show ?case by (auto intro: wf_node.wf_leaf)
next
  case (wf_dir pre children)
  then show ?case by (auto intro!: wf_node.wf_dir)
qed

lemma build_children_wf:
  assumes "\<forall>kc\<in>set children. wf_node es [fst kc] (snd kc)"
    and "build_children hs children = Inr children'"
    and "set hs \<subseteq> es"
  shows "\<forall>kc\<in>set children'. wf_node es [fst kc] (snd kc)"
  using assms
proof (induction hs arbitrary: children)
  case Nil
  then show ?case by simp
next
  case (Cons e hs)
  from Cons.prems(2) obtain mid where mid: "insert_leaf (split_on CHR ''/'' (entry_file e)) e children = Inr mid"
    and rest: "build_children hs mid = Inr children'"
    by (auto split: sum.splits)
  from Cons.prems(1) have "\<forall>kc\<in>set children. wf_node es ([] @ [fst kc]) (snd kc)" by simp
  from insert_leaf_wf [OF this mid] Cons.prems(3)
  have "\<forall>kc\<in>set mid. wf_node es [fst kc] (snd kc)" by simp
  from Cons.IH [OF this rest] Cons.prems(3) show ?case by simp
qed

lemma leaves_convert:
  assumes "wf_node es pre c" and "(p, lf) \<in> set (leaves (convert_to_list c))"
  shows "butlast pre @ p = split_on CHR ''/'' (leaf_fullPath lf)
         \<and> (\<exists>e\<in>es. lf = make_leaf (last (split_on CHR ''/'' (entry_file e))) e)"
  using assms
proof (induction arbitrary: p rule: wf_node.induct)
  case (wf_leaf e pre)
  have "pre \<noteq> []" using wf_leaf(2) split_on_nonempty by auto
  with wf_leaf show ?case by (auto simp: make_leaf_def)
next
  case (wf_dir pre children)
  show ?case
  proof (cases "children = []")
    case True
    with wf_dir(3) show ?thesis by (simp add: dict_values_def)
  next
    case False
    with wf_dir(3) obtain q k c where p: "p = last pre # q"
      and kc: "(k, c) \<in> set children" and q: "(q, lf) \<in> set (leaves (convert_to_list c))"
      by (auto simp: dict_values_def Let_def)
    from wf_dir(2) kc q
    have "butlast (pre @ [k]) @ q = split_on CHR ''/'' (leaf_fullPath lf)
         \<and> (\<exists>e\<in>es. lf = make_leaf (last (split_on CHR ''/'' (entry_file e))) e)"
      by force
    moreover have "butlast pre @ last pre # q = (butlast pre @ [last pre]) @ q" by simp
    moreover have "butlast pre @ [last pre] = pre" using wf_dir(1) by simp
    ultimately show ?thesis using p by simp
  qed
qed

text \<open>
  C5. When \<open>build_hierarchy\<close> returns a tree, every leaf of it, reached through the nodes
  named \<open>p\<close> (the root first, the leaf last), satisfies: the names below the root joined
  by \<open>/\<close> are the leaf's \<open>fullPath\<close>, and the leaf was made from an entry of the input
  whose \<open>file\<close> key is that same path.
\<close>

theorem hierarchy_round_trip:
  assumes "build_hierarchy hotspots = Inr tree"
    and "(p, lf) \<in> set (leaves tree)"
  shows "join ''/'' (tl p) = leaf_fullPath lf
         \<and> (\<exists>e\<in>set hotspots. lf = make_leaf (last (split_on CHR ''/'' (entry_file e))) e
                                \<and> join ''/'' (tl p) = entry_file e)"
proof -
  from assms(1) obtain children where ch: "build_children hotspots [] = Inr children"
    and root: "tree = convert_to_list (DDir ''root'' children)"
    by (auto simp: build_hierarchy_def split: sum.splits)
  have wf: "\<forall>kc\<in>set children. wf_node (set hotspots) [fst kc] (snd kc)"
    by (rule build_children_wf [OF _ ch]) simp_all
  show ?thesis
  proof (cases "children = []")
    case True
    with assms(2) root show ?thesis by (simp add: dict_values_def)
  next
    case False
    with assms(2) root obtain q k c where p: "p = ''root'' # q"
      and kc: "(k, c) \<in> set children" and q: "(q, lf) \<in> set (leaves (convert_to_list c))"
      by (auto simp: dict_values_def Let_def)
    from wf kc have "wf_node (set hotspots) [k] c" by force
    from leaves_convert [OF this q]
    have path: "q = split_on CHR ''/'' (leaf_fullPath lf)"
      and src: "\<exists>e\<in>set hotspots. lf = make_leaf (last (split_on CHR ''/'' (entry_file e))) e"
      by simp_all
    have "join ''/'' (tl p) = leaf_fullPath lf"
      using join_split_on [of "CHR ''/''" "leaf_fullPath lf"] by (simp add: p path)
    moreover from src obtain e where "e \<in> set hotspots"
      and "lf = make_leaf (last (split_on CHR ''/'' (entry_file e))) e" by blast
    moreover from this have "leaf_fullPath lf = entry_file e" by (simp add: make_leaf_def)
    ultimately show ?thesis by auto
  qed
qed

theorem hierarchy_round_trip_witness:
  "build_hierarchy [sample_entry ''src/a.py'', sample_entry ''src/lib/b.py'', sample_entry ''README.md'']
     = Inr (Node ''root'' (Some
        [Node ''src'' (Some
           [LeafNode (make_leaf ''a.py'' (sample_entry ''src/a.py'')),
            Node ''lib'' (Some [LeafNode (make_leaf ''b.py'' (sample_entry ''src/lib/b.py''))])]),
         LeafNode (make_leaf ''README.md'' (sample_entry ''README.md''))]))
   \<and> join ''/'' (tl [''root'', ''src'', ''lib'', ''b.py''])
       = leaf_fullPath (make_leaf ''b.py'' (sample_entry ''src/lib/b.py''))
   \<and> leaf_fullPath (make_leaf ''b.py'' (sample_entry ''src/lib/b.py'')) = ''src/lib/b.py''"
proof -
  let ?tree = "Node ''root'' (Some
        [Node ''src'' (Some
           [LeafNode (make_leaf ''a.py'' (sample_entry ''src/a.py'')),
            Node ''lib'' (Some [LeafNode (make_leaf ''b.py'' (sample_entry ''src/lib/b.py''))])]),
         LeafNode (make_leaf ''README.md'' (sample_entry ''README.md''))])"
  have built: "build_hierarchy
      [sample_entry ''src/a.py'', sample_entry ''src/lib/b.py'', sample_entry ''README.md'']
      = Inr ?tree"
    by (simp add: build_hierarchy_def sample_entry_def dict_values_def)
  have leaf: "([''root'', ''src'', ''lib'', ''b.py''], make_leaf ''b.py'' (sample_entry ''src/lib/b.py''))
      \<in> set (leaves ?tree)"
    by (simp add: make_leaf_def)
  from hierarchy_round_trip [OF built leaf] built show ?thesis
    by (simp add: make_leaf_def sample_entry_def)
qed

text \<open>
  No tree is produced when an entry's path runs through an earlier entry's file: the
  walk reads the children of a leaf.
\<close>

lemma build_hierarchy_conflict:
  "build_hierarchy [sample_entry ''a'', sample_entry ''a/b''] = Inl KeyError"
  by (simp add: build_hierarchy_def sample_entry_def dict_values_def)

subsection \<open>Rounding to a double\<close>

lemma rhe_bounds: "\<lfloor>x\<rfloor> \<le> rhe x \<and> rhe x \<le> \<lfloor>x\<rfloor> + 1"
  by (simp add: rhe_def Let_def)

lemma rhe_of_int [simp]: "rhe (of_int n) = n"
  by (simp add: rhe_def Let_def)

lemma rhe_mono:
  assumes "x \<le> y" shows "rhe x \<le> rhe y"
proof (cases "\<lfloor>x\<rfloor> = \<lfloor>y\<rfloor>")
  case True
  with assms have "x - of_int \<lfloor>x\<rfloor> \<le> y - of_int \<lfloor>y\<rfloor>" by simp
  with True show ?thesis by (auto simp: rhe_def Let_def)
next
  case False
  with assms have "\<lfloor>x\<rfloor> < \<lfloor>y\<rfloor>" using floor_mono [OF assms] by linarith
  with rhe_bounds [of x] rhe_bounds [of y] show ?thesis by linarith
qed

lemma rhe_nonneg: "0 \<le> x \<Longrightarrow> 0 \<le> rhe x"
  using rhe_mono [of 0 x] rhe_of_int [of 0] by simp

lemma rhe_cases:
  fixes x :: rat
  defines "d \<equiv> x - of_int \<lfloor>x\<rfloor>"
  shows "0 \<le> d" and "d < 1"
    and "rhe x = (if d < 1 / 2 then \<lfloor>x\<rfloor> else if 1 / 2 < d then \<lfloor>x\<rfloor> + 1
                 else if even \<lfloor>x\<rfloor> then \<lfloor>x\<rfloor> else \<lfloor>x\<rfloor> + 1)"
    and "x = of_int \<lfloor>x\<rfloor> + d"
proof -
  show "0 \<le> d" unfolding d_def by linarith
  show "d < 1" unfolding d_def by linarith
  show "rhe x = (if d < 1 / 2 then \<lfloor>x\<rfloor> else if 1 / 2 < d then \<lfloor>x\<rfloor> + 1
                 else if even \<lfloor>x\<rfloor> then \<lfloor>x\<rfloor> else \<lfloor>x\<rfloor> + 1)"
    by (simp add: rhe_def Let_def d_def)
  show "x = of_int \<lfloor>x\<rfloor> + d" by (simp add: d_def)
qed

lemma rhe_nearest: "\<bar>x - of_int (rhe x)\<bar> \<le> 1 / 2"
proof -
  define d where "d = x - of_int \<lfloor>x\<rfloor>"
  note c = rhe_cases [of x, folded d_def]
  have x: "x - of_int \<lfloor>x\<rfloor> = d" by (simp add: d_def)
  consider "d < 1 / 2" | "1 / 2 < d" | "d = 1 / 2" by linarith
  then show ?thesis
  proof cases
    case 1
    then have "rhe x = \<lfloor>x\<rfloor>" by (simp add: c(3))
    then show ?thesis using 1 c(1) x by simp
  next
    case 2
    then have "rhe x = \<lfloor>x\<rfloor> + 1" by (simp add: c(3))
    then have "x - of_int (rhe x) = d - 1" using x by simp
    then show ?thesis using 2 c(2) by simp
  next
    case 3
    then have "rhe x = \<lfloor>x\<rfloor> \<or> rhe x = \<lfloor>x\<rfloor> + 1" by (simp add: c(3))
    then have "x - of_int (rhe x) = d \<or> x - of_int (rhe x) = d - 1" using x by auto
    then show ?thesis using 3 by auto
  qed
qed

lemma rhe_tie_even:
  assumes "\<bar>x - of_int (rhe x)\<bar> = 1 / 2"
  shows "even (rhe x)"
proof -
  define d where "d = x - of_int \<lfloor>x\<rfloor>"
  note c = rhe_cases [of x, folded d_def]
  have x: "x - of_int \<lfloor>x\<rfloor> = d" by (simp add: d_def)
  consider "d < 1 / 2" | "1 / 2 < d" | "d = 1 / 2" by linarith
  then show ?thesis
  proof cases
    case 1
    then have "rhe x = \<lfloor>x\<rfloor>" by (simp add: c(3))
    then have "\<bar>x - of_int (rhe x)\<bar> = d" using c(1) x by simp
    with assms 1 show ?thesis by simp
  next
    case 2
    then have "rhe x = \<lfloor>x\<rfloor> + 1" by (simp add: c(3))
    then have "x - of_int (rhe x) = d - 1" using x by simp
    then have "\<bar>x - of_int (rhe x)\<bar> = 1 - d" using c(2) by simp
    with assms 2 show ?thesis by simp
  next
    case 3
    then show ?thesis by (simp add: c(3))
  qed
qed

lemma bitlen_powi:
  assumes "0 < a"
  shows "(2::rat) powi (bitlen a - 1) \<le> of_int a" and "of_int a < (2::rat) powi bitlen a"
proof -
  from bitlen_bounds [OF assms]
  have lo: "2 ^ nat (bitlen a - 1) \<le> a" and hi: "a < 2 ^ nat (bitlen a)" by simp_all
  have pos: "1 \<le> bitlen a" using assms bitlen_eq_zero_iff [of a] bitlen_nonneg [of a] by linarith
  from lo have "(of_int (2 ^ nat (bitlen a - 1)) :: rat) \<le> of_int a" by (simp only: of_int_le_iff)
  then have "(2::rat) ^ nat (bitlen a - 1) \<le> of_int a" by simp
  moreover have "(2::rat) powi (bitlen a - 1) = 2 ^ nat (bitlen a - 1)"
    using pos power_int_of_nat [of "2::rat" "nat (bitlen a - 1)"] by simp
  ultimately show "(2::rat) powi (bitlen a - 1) \<le> of_int a" by simp
  from hi have "(of_int a :: rat) < of_int (2 ^ nat (bitlen a))" by (simp only: of_int_less_iff)
  then have "(of_int a :: rat) < 2 ^ nat (bitlen a)" by simp
  moreover have "(2::rat) powi (bitlen a) = 2 ^ nat (bitlen a)"
    using pos power_int_of_nat [of "2::rat" "nat (bitlen a)"] by simp
  ultimately show "of_int a < (2::rat) powi bitlen a" by simp
qed

lemma flog2_bounds:
  assumes "x \<noteq> 0"
  shows "2 powi flog2 x \<le> \<bar>x\<bar>" and "\<bar>x\<bar> < 2 powi (flog2 x + 1)"
proof -
  define a where "a = fst (quotient_of \<bar>x\<bar>)"
  define b where "b = snd (quotient_of \<bar>x\<bar>)"
  define e where "e = bitlen a - bitlen b"
  have q: "quotient_of \<bar>x\<bar> = (a, b)" by (simp add: a_def b_def)
  have b: "0 < b" using quotient_of_denom_pos [OF q] .
  have x: "\<bar>x\<bar> = of_int a / of_int b" using quotient_of_div [OF q] .
  have "0 < \<bar>x\<bar>" using assms by simp
  with x b have a: "0 < a" by (simp add: zero_less_divide_iff)
  note A = bitlen_powi [OF a] and B = bitlen_powi [OF b]
  have bpos: "(0::rat) < of_int b" using b by simp
  have "\<bar>x\<bar> < 2 powi bitlen a / of_int b"
    unfolding x using A(2) bpos by (simp add: divide_strict_right_mono)
  also have "\<dots> \<le> 2 powi bitlen a / 2 powi (bitlen b - 1)"
    using B(1) bpos by (intro divide_left_mono) (simp_all add: zero_less_power_int)
  also have "\<dots> = 2 powi (e + 1)"
    unfolding e_def using power_int_diff [of "2::rat" "bitlen a" "bitlen b - 1"]
    by (simp add: algebra_simps)
  finally have up: "\<bar>x\<bar> < 2 powi (e + 1)" .
  have "(2::rat) powi (e - 1) = 2 powi (bitlen a - 1) / 2 powi bitlen b"
    unfolding e_def using power_int_diff [of "2::rat" "bitlen a - 1" "bitlen b"]
    by (simp add: algebra_simps)
  also have "\<dots> \<le> of_int a / 2 powi bitlen b"
    using A(1) by (intro divide_right_mono) simp_all
  also have "\<dots> \<le> of_int a / of_int b"
    using B(2) a bpos by (intro divide_left_mono) simp_all
  finally have lo: "2 powi (e - 1) \<le> \<bar>x\<bar>" unfolding x .
  have f: "flog2 x = (if 2 powi e \<le> \<bar>x\<bar> then e else e - 1)"
    by (simp add: flog2_def Let_def a_def b_def e_def)
  show "2 powi flog2 x \<le> \<bar>x\<bar>" using lo by (simp add: f)
  show "\<bar>x\<bar> < 2 powi (flog2 x + 1)" using up by (auto simp: f)
qed

lemma flog2_mono:
  assumes "0 < x" and "x \<le> y"
  shows "flog2 x \<le> flog2 y"
proof -
  from assms have "x \<noteq> 0" "y \<noteq> 0" by auto
  from flog2_bounds(1) [OF this(1)] flog2_bounds(2) [OF this(2)] assms
  have "(2::rat) powi flog2 x < 2 powi (flog2 y + 1)" by simp
  then have "flog2 x < flog2 y + 1"
    by (metis linorder_not_less one_le_numeral power_int_increasing)
  then show ?thesis by simp
qed

lemma fl_pos_eq: "x \<noteq> 0 \<Longrightarrow> fl x = of_int (rhe (x / 2 powi (max (flog2 x - 52) (- 1074)))) * 2 powi (max (flog2 x - 52) (- 1074))"
  by (simp add: fl_def Let_def)

lemma two_powi_pos: "(0::rat) < 2 powi p"
  by (simp add: zero_less_power_int)

lemma fl_nonneg: "0 \<le> x \<Longrightarrow> 0 \<le> fl x"
  by (cases "x = 0") (auto simp: fl_def Let_def intro!: mult_nonneg_nonneg rhe_nonneg divide_nonneg_nonneg less_imp_le [OF two_powi_pos])

lemma fl_upper:
  assumes "0 < x"
  shows "fl x \<le> 2 powi (max (flog2 x - 52) (- 1074) + 53)"
proof -
  define p where "p = max (flog2 x - 52) (- 1074)"
  have x: "x \<noteq> 0" using assms by simp
  have "x < 2 powi (flog2 x + 1)" using flog2_bounds(2) [OF x] assms by simp
  also have "\<dots> \<le> 2 powi (p + 53)"
    by (intro power_int_increasing) (simp_all add: p_def)
  finally have "x / 2 powi p < 2 powi (p + 53) / 2 powi p"
    by (simp add: divide_strict_right_mono two_powi_pos)
  also have "2 powi (p + 53) / 2 powi p = (2::rat) powi 53"
    by (simp add: power_int_add)
  also have "(2::rat) powi 53 = of_int (2 ^ 53)" by simp
  finally have "rhe (x / 2 powi p) \<le> rhe (of_int (2 ^ 53))"
    by (intro rhe_mono) simp
  then have "rhe (x / 2 powi p) \<le> 2 ^ 53" by (simp only: rhe_of_int)
  then have "(of_int (rhe (x / 2 powi p)) :: rat) \<le> of_int (2 ^ 53)" by (simp only: of_int_le_iff)
  then have "of_int (rhe (x / 2 powi p)) * 2 powi p \<le> of_int (2 ^ 53) * (2::rat) powi p"
    by (intro mult_right_mono) (simp_all add: less_imp_le [OF two_powi_pos])
  also have "of_int (2 ^ 53) * (2::rat) powi p = 2 powi (p + 53)"
    by (simp add: power_int_add)
  finally show ?thesis unfolding p_def fl_pos_eq [OF x] .
qed

lemma fl_lower:
  assumes "0 < x" and "- 1074 \<le> flog2 x - 52"
  shows "2 powi flog2 x \<le> fl x"
proof -
  define p where "p = flog2 x - 52"
  have pm: "max (flog2 x - 52) (- 1074) = p" using assms(2) by (simp add: p_def)
  have x: "x \<noteq> 0" using assms by simp
  have "(2::rat) powi 52 = 2 powi (p + 52) / 2 powi p" by (simp add: power_int_add)
  also have "\<dots> = 2 powi flog2 x / 2 powi p" by (simp add: p_def)
  also have "\<dots> \<le> x / 2 powi p"
    using flog2_bounds(1) [OF x] assms(1) by (intro divide_right_mono) (simp_all add: less_imp_le [OF two_powi_pos])
  finally have "of_int (2 ^ 52) \<le> x / 2 powi p" by simp
  then have "rhe (of_int (2 ^ 52)) \<le> rhe (x / 2 powi p)" by (rule rhe_mono)
  then have "2 ^ 52 \<le> rhe (x / 2 powi p)" by (simp only: rhe_of_int)
  then have "(of_int (2 ^ 52) :: rat) \<le> of_int (rhe (x / 2 powi p))" by (simp only: of_int_le_iff)
  then have a: "of_int (2 ^ 52) * (2::rat) powi p \<le> of_int (rhe (x / 2 powi p)) * 2 powi p"
    by (intro mult_right_mono) (simp_all add: less_imp_le [OF two_powi_pos])
  have b: "of_int (2 ^ 52) * (2::rat) powi p = 2 powi flog2 x"
    using power_int_add [of "2::rat" p 52] by (simp add: p_def mult.commute)
  show ?thesis using a unfolding fl_pos_eq [OF x] pm b .
qed

lemma fl_mono_pos:
  assumes "0 < x" and "x \<le> y"
  shows "fl x \<le> fl y"
proof -
  define px where "px = max (flog2 x - 52) (- 1074)"
  define py where "py = max (flog2 y - 52) (- 1074)"
  have x: "x \<noteq> 0" and y: "y \<noteq> 0" and ypos: "0 < y" using assms by auto
  have le: "px \<le> py" using flog2_mono [OF assms] by (simp add: px_def py_def)
  show ?thesis
  proof (cases "px = py")
    case True
    have "x / 2 powi py \<le> y / 2 powi py"
      using assms(2) by (intro divide_right_mono) (simp_all add: less_imp_le [OF two_powi_pos])
    then have "rhe (x / 2 powi py) \<le> rhe (y / 2 powi py)" by (rule rhe_mono)
    then have "(of_int (rhe (x / 2 powi py)) :: rat) \<le> of_int (rhe (y / 2 powi py))"
      by (simp only: of_int_le_iff)
    then have "(of_int (rhe (x / 2 powi py)) :: rat) * 2 powi py
                 \<le> of_int (rhe (y / 2 powi py)) * 2 powi py"
      by (intro mult_right_mono) (simp_all add: less_imp_le [OF two_powi_pos])
    then show ?thesis
      unfolding fl_pos_eq [OF x] fl_pos_eq [OF y] using True by (simp add: px_def py_def)
  next
    case False
    with le have lt: "px < py" by simp
    then have big: "- 1074 \<le> flog2 y - 52" and py: "py = flog2 y - 52"
      by (auto simp: px_def py_def)
    have "fl x \<le> 2 powi (px + 53)" using fl_upper [OF assms(1)] by (simp add: px_def)
    also have "\<dots> \<le> 2 powi flog2 y"
      using lt py by (intro power_int_increasing) simp_all
    also have "\<dots> \<le> fl y" by (rule fl_lower [OF ypos big])
    finally show ?thesis .
  qed
qed

lemma fl_zero [simp]: "fl 0 = 0"
  by (simp add: fl_def)

lemma fl_mono_nonneg:
  assumes "0 \<le> x" and "x \<le> y"
  shows "fl x \<le> fl y"
proof (cases "x = 0")
  case True
  with assms fl_nonneg [of y] show ?thesis by simp
next
  case False
  with assms have "0 < x" by simp
  then show ?thesis using assms(2) by (rule fl_mono_pos)
qed

lemma fl_one: "fl 1 = 1"
  by code_simp

text \<open>Rounding is odd, and a double is its own rounding.\<close>

lemma rhe_minus: "rhe (- x) = - rhe x"
proof (cases "x \<in> \<int>")
  case True
  then obtain n where n: "x = of_int n" by (auto elim: Ints_cases)
  then have "rhe (- x) = rhe (of_int (- n))" by simp
  also have "\<dots> = - n" by (rule rhe_of_int)
  finally show ?thesis by (simp add: n)
next
  case False
  have "x \<noteq> of_int \<lfloor>x\<rfloor>" using False Ints_of_int [of "\<lfloor>x\<rfloor>"] by metis
  then have c: "\<lceil>x\<rceil> = \<lfloor>x\<rfloor> + 1" by (simp add: ceiling_altdef)
  have f: "\<lfloor>- x\<rfloor> = - \<lfloor>x\<rfloor> - 1" using c by (simp add: floor_minus)
  show ?thesis
    unfolding rhe_def Let_def f
    by (auto simp: algebra_simps)
qed

lemma flog2_minus: "flog2 (- x) = flog2 x"
  by (simp add: flog2_def)

lemma fl_minus: "fl (- x) = - fl x"
  by (simp add: fl_def Let_def flog2_minus rhe_minus)

lemma fl_abs: "\<bar>fl x\<bar> = fl \<bar>x\<bar>"
proof (cases "0 \<le> x")
  case True
  then show ?thesis using fl_nonneg [of x] by simp
next
  case False
  then have "0 \<le> - x" by simp
  from fl_nonneg [OF this] False show ?thesis by (simp add: fl_minus)
qed

lemma flog2_unique:
  assumes "0 < x" and "2 powi e \<le> x" and "x < 2 powi (e + 1)"
  shows "flog2 x = e"
proof -
  have x: "x \<noteq> 0" using assms(1) by simp
  from flog2_bounds [OF x] assms(1)
  have lo: "2 powi flog2 x \<le> x" and hi: "x < 2 powi (flog2 x + 1)" by simp_all
  have "(2::rat) powi e < 2 powi (flog2 x + 1)" using assms(2) hi by simp
  then have a: "e < flog2 x + 1"
    by (metis linorder_not_less one_le_numeral power_int_increasing)
  have "(2::rat) powi flog2 x < 2 powi (e + 1)" using lo assms(3) by simp
  then have b: "flog2 x < e + 1"
    by (metis linorder_not_less one_le_numeral power_int_increasing)
  from a b show ?thesis by simp
qed

lemma fl_representable:
  assumes "2 ^ 52 \<le> m" and "m < 2 ^ 53" and "- 1074 \<le> p"
  shows "fl (of_int m * 2 powi p) = of_int m * 2 powi p"
proof -
  define x :: rat where "x = of_int m * 2 powi p"
  have mpos: "(0::rat) < of_int m" using assms(1) by simp
  have xpos: "0 < x" unfolding x_def using mpos by (simp add: zero_less_power_int)
  have "(2::rat) powi (p + 52) = of_int (2 ^ 52) * 2 powi p"
    by (simp add: power_int_add mult.commute)
  also have "\<dots> \<le> x" unfolding x_def using assms(1)
    by (intro mult_right_mono) (simp_all only: of_int_le_iff, simp add: less_imp_le zero_less_power_int)
  finally have lo: "2 powi (p + 52) \<le> x" .
  have "x < of_int (2 ^ 53) * 2 powi p" unfolding x_def using assms(2)
    by (intro mult_strict_right_mono) (simp_all only: of_int_less_iff, simp add: zero_less_power_int)
  also have "\<dots> = 2 powi (p + 52 + 1)"
    by (simp add: power_int_add mult.commute)
  finally have hi: "x < 2 powi (p + 52 + 1)" .
  have e: "flog2 x = p + 52" by (rule flog2_unique [OF xpos lo hi])
  have x0: "x \<noteq> 0" using xpos by simp
  have pm: "max (flog2 x - 52) (- 1074) = p" using assms(3) by (simp add: e)
  have q: "x / 2 powi p = of_int m" by (simp add: x_def)
  have "fl x = of_int (rhe (x / 2 powi p)) * 2 powi p"
    using x0 pm by (simp add: fl_def Let_def)
  also have "\<dots> = of_int m * 2 powi p" by (simp only: q rhe_of_int)
  finally show ?thesis by (simp only: x_def)
qed

text \<open>A quotient that does not overflow is at most the largest double.\<close>

lemma two_powi_1024: "(2::rat) powi 1024 = 2 ^ 1024"
  by (rule power_int_numeral)

lemma two_1024_split: "(2::rat) ^ 1024 = 2 ^ 53 * 2 ^ 971"
  by (simp only: power_add [symmetric]) simp

lemma two_powi_1023_le: "(2::rat) powi 1023 \<le> dmax"
proof -
  have "(2::rat) powi 1023 = 2 ^ 1023" by (rule power_int_numeral)
  also have "\<dots> = 2 ^ 52 * 2 ^ 971" by (simp only: power_add [symmetric]) simp
  also have "\<dots> \<le> (2 ^ 53 - 1) * 2 ^ 971" by (intro mult_right_mono) simp_all
  finally show ?thesis by (simp only: dmax_def)
qed

lemma fl_below_overflow:
  assumes "0 < x" and "fl x < 2 ^ 1024"
  shows "fl x \<le> dmax"
proof -
  define p where "p = max (flog2 x - 52) (- 1074)"
  have x: "x \<noteq> 0" using assms(1) by simp
  have e: "flog2 x \<le> 1023"
  proof (rule ccontr)
    assume "\<not> flog2 x \<le> 1023"
    then have big: "1024 \<le> flog2 x" by simp
    then have "(2::rat) powi 1024 \<le> 2 powi flog2 x" by (intro power_int_increasing) simp_all
    also have "\<dots> \<le> fl x" using big by (intro fl_lower [OF assms(1)]) simp
    finally have "(2::rat) ^ 1024 \<le> fl x" by (simp only: two_powi_1024)
    with assms(2) show False by (rule less_le_not_le [THEN iffD1, THEN conjunct2, THEN notE])
  qed
  then have p: "p \<le> 971" by (simp add: p_def)
  show ?thesis
  proof (cases "p = 971")
    case True
    define m where "m = rhe (x / 2 ^ 971)"
    have pw: "(2::rat) powi p = 2 ^ 971" unfolding True by (rule power_int_numeral)
    have flx: "fl x = of_int m * 2 ^ 971"
      unfolding fl_pos_eq [OF x] p_def [symmetric] pw m_def [symmetric] ..
    from assms(2) have "(of_int m :: rat) * 2 ^ 971 < 2 ^ 53 * 2 ^ 971"
      by (simp only: flx two_1024_split)
    then have "(of_int m :: rat) < 2 ^ 53"
      by (rule mult_right_less_imp_less) simp
    also have "(2::rat) ^ 53 = of_int (2 ^ 53)" by simp
    finally have "m < 2 ^ 53" by (simp only: of_int_less_iff)
    then have "m \<le> 2 ^ 53 - 1" by simp
    then have "(of_int m :: rat) \<le> of_int (2 ^ 53 - 1)" by (simp only: of_int_le_iff)
    also have "(of_int (2 ^ 53 - 1) :: rat) = 2 ^ 53 - 1" by simp
    finally have "(of_int m :: rat) * 2 ^ 971 \<le> (2 ^ 53 - 1) * 2 ^ 971"
      by (rule mult_right_mono) simp
    then show ?thesis by (simp only: flx dmax_def)
  next
    case False
    with p have le: "p + 53 \<le> 1023" by simp
    have "fl x \<le> 2 powi (p + 53)" using fl_upper [OF assms(1)] by (simp only: p_def)
    also have "\<dots> \<le> 2 powi 1023" using le by (intro power_int_increasing) simp_all
    also have "\<dots> \<le> dmax" by (rule two_powi_1023_le)
    finally show ?thesis .
  qed
qed

lemma dmax_nonneg: "0 \<le> dmax"
  by (simp add: dmax_def)

lemma int_truediv_finite:
  assumes "int_truediv a b = Inr q"
  shows "\<bar>q\<bar> \<le> dmax"
proof -
  define r :: rat where "r = of_int a / of_int b"
  from assms have q: "q = fl r" and small: "\<not> 2 ^ 1024 \<le> \<bar>fl r\<bar>"
    by (auto simp: int_truediv_def Let_def r_def split: if_splits)
  show ?thesis
  proof (cases "r = 0")
    case True
    then show ?thesis using dmax_nonneg by (simp add: q)
  next
    case False
    then have pos: "0 < \<bar>r\<bar>" by simp
    from small have "fl \<bar>r\<bar> < 2 ^ 1024" by (simp only: fl_abs not_le)
    from fl_below_overflow [OF pos this] show ?thesis by (simp only: q fl_abs)
  qed
qed

text \<open>The products and the sum of the score stay finite.\<close>

lemma weight_bounds:
  "0 \<le> fl (7 / 10)" "fl (7 / 10) \<le> 3 / 4" "0 \<le> fl (3 / 10)" "fl (3 / 10) \<le> 1"
proof -
  show "0 \<le> fl (7 / 10)" and "0 \<le> fl (3 / 10)" by (simp_all add: fl_nonneg)
  have "fl (7 / 10) \<le> fl (3 / 4)" by (rule fl_mono_nonneg) simp_all
  also have "fl (3 / 4) = 3 / 4"
    using fl_representable [of "3 * 2 ^ 51" "- 53"] by simp
  finally show "fl (7 / 10) \<le> 3 / 4" .
  have "fl (3 / 10) \<le> fl 1" by (rule fl_mono_nonneg) simp_all
  then show "fl (3 / 10) \<le> 1" by (simp only: fl_one)
qed

lemma big_grid:
  "fl (3 * 2 ^ 1022) = 3 * 2 ^ 1022" "fl (7 * 2 ^ 1021) = 7 * 2 ^ 1021"
proof -
  have a: "(of_int (3 * 2 ^ 51) :: rat) * 2 powi 971 = 3 * 2 ^ 1022"
  proof -
    have "(2::rat) powi 971 = 2 ^ 971" by (rule power_int_numeral)
    moreover have "(3 * 2 ^ 51 :: rat) * 2 ^ 971 = 3 * 2 ^ 1022"
      by (simp only: mult.assoc power_add [symmetric]) simp
    ultimately show ?thesis by simp
  qed
  have b: "(of_int (7 * 2 ^ 50) :: rat) * 2 powi 971 = 7 * 2 ^ 1021"
  proof -
    have "(2::rat) powi 971 = 2 ^ 971" by (rule power_int_numeral)
    moreover have "(7 * 2 ^ 50 :: rat) * 2 ^ 971 = 7 * 2 ^ 1021"
      by (simp only: mult.assoc power_add [symmetric]) simp
    ultimately show ?thesis by simp
  qed
  show "fl (3 * 2 ^ 1022) = 3 * 2 ^ 1022"
    using fl_representable [of "3 * 2 ^ 51" 971] unfolding a by simp
  show "fl (7 * 2 ^ 1021) = 7 * 2 ^ 1021"
    using fl_representable [of "7 * 2 ^ 50" 971] unfolding b by simp
qed

lemma dmax_weighted: "dmax * (3 / 4) \<le> 3 * 2 ^ 1022"
proof -
  have "dmax * (3 / 4) \<le> (2 ^ 53 * 2 ^ 971) * (3 / 4 :: rat)"
    unfolding dmax_def by (intro mult_right_mono) simp_all
  also have "\<dots> = 3 * 2 ^ 1022"
    by (simp only: power_add [symmetric]) simp
  finally show ?thesis .
qed

lemma score_finite:
  assumes "int_truediv a b = Inr nr" and "0 \<le> nl" and "nl \<le> 1"
  shows "\<bar>fmul nr (fl (7 / 10))\<bar> < 2 ^ 1024
         \<and> \<bar>fmul nl (fl (3 / 10))\<bar> < 2 ^ 1024
         \<and> \<bar>fadd (fmul nr (fl (7 / 10))) (fmul nl (fl (3 / 10)))\<bar> < 2 ^ 1024"
proof -
  let ?u = "fmul nr (fl (7 / 10))" and ?v = "fmul nl (fl (3 / 10))"
  note w = weight_bounds
  have nr: "\<bar>nr\<bar> \<le> dmax" by (rule int_truediv_finite [OF assms(1)])
  have "\<bar>nr\<bar> * fl (7 / 10) \<le> dmax * (3 / 4)"
    using nr w(1,2) dmax_nonneg by (intro mult_mono) simp_all
  also note dmax_weighted
  finally have p1: "\<bar>nr\<bar> * fl (7 / 10) \<le> 3 * 2 ^ 1022" .
  have "\<bar>?u\<bar> = fl (\<bar>nr\<bar> * fl (7 / 10))"
    using w(1) by (simp add: fmul_def fl_abs abs_mult)
  also have "\<dots> \<le> fl (3 * 2 ^ 1022)"
    using w(1) p1 by (intro fl_mono_nonneg mult_nonneg_nonneg) simp_all
  finally have u: "\<bar>?u\<bar> \<le> 3 * 2 ^ 1022" by (simp only: big_grid)
  have "nl * fl (3 / 10) \<le> 1 * 1"
    using assms(2,3) w(3,4) by (intro mult_mono) simp_all
  then have p2: "nl * fl (3 / 10) \<le> 1" by simp
  have "\<bar>?v\<bar> = fl (nl * fl (3 / 10))"
    using w(3) assms(2) by (simp add: fmul_def fl_abs abs_mult)
  also have "\<dots> \<le> fl 1"
    using assms(2) w(3) p2 by (intro fl_mono_nonneg mult_nonneg_nonneg) simp_all
  finally have v: "\<bar>?v\<bar> \<le> 1" by (simp only: fl_one)
  have "\<bar>?u + ?v\<bar> \<le> \<bar>?u\<bar> + \<bar>?v\<bar>" by (rule abs_triangle_ineq)
  also have "\<dots> \<le> 3 * 2 ^ 1022 + 1" using u v by (rule add_mono)
  also have "\<dots> \<le> 7 * 2 ^ 1021" by simp
  finally have p3: "\<bar>?u + ?v\<bar> \<le> 7 * 2 ^ 1021" .
  have "\<bar>fadd ?u ?v\<bar> = fl \<bar>?u + ?v\<bar>" by (simp add: fadd_def fl_abs)
  also have "\<dots> \<le> fl (7 * 2 ^ 1021)" using p3 by (intro fl_mono_nonneg) simp_all
  finally have s: "\<bar>fadd ?u ?v\<bar> \<le> 7 * 2 ^ 1021" by (simp only: big_grid)
  have "(3 * 2 ^ 1022 :: rat) < 2 ^ 1024" and "(1::rat) < 2 ^ 1024"
    and "(7 * 2 ^ 1021 :: rat) < 2 ^ 1024" by simp_all
  with u v s show ?thesis by linarith
qed

subsection \<open>Hotspot Scorer\<close>

lemma py_round_one: "py_round 1 4 = 1"
  by code_simp

lemma int_truediv_self:
  assumes "a \<noteq> 0" shows "int_truediv a a = Inr 1"
  using assms by (simp add: int_truediv_def fl_one)

lemma hotspots_loop_entries:
  assumes "hotspots_loop revisions loc churn authors mr ml files acc = Inr out"
    and "e \<in> set out"
  shows "e \<in> set acc \<or> (\<exists>f\<in>set files. hotspot_entry revisions loc churn authors mr ml f = Inr (Some e))"
  using assms
proof (induction files arbitrary: acc)
  case Nil
  then show ?case by simp
next
  case (Cons f files)
  show ?case
  proof (cases "hotspot_entry revisions loc churn authors mr ml f")
    case (Inl err)
    with Cons.prems show ?thesis by simp
  next
    case (Inr r)
    show ?thesis
    proof (cases r)
      case None
      with Inr Cons.prems have "hotspots_loop revisions loc churn authors mr ml files acc = Inr out"
        by simp
      from Cons.IH [OF this Cons.prems(2)] show ?thesis by auto
    next
      case (Some x)
      with Inr Cons.prems have "hotspots_loop revisions loc churn authors mr ml files (acc @ [x]) = Inr out"
        by simp
      from Cons.IH [OF this Cons.prems(2)] Inr Some show ?thesis by auto
    qed
  qed
qed

lemma set_sort_by_score_desc [simp]: "set (sort_by_score_desc xs) = set xs"
  by (simp add: sort_by_score_desc_def)

lemma calculate_hotspots_entries:
  assumes "calculate_hotspots revisions loc churn authors common_files = Inr hotspots"
    and "e \<in> set hotspots"
  shows "\<exists>f\<in>set common_files.
           hotspot_entry revisions loc churn authors (max_or_one revisions) (max_or_one loc) f
             = Inr (Some e)"
proof -
  from assms(1) obtain out where
    out: "hotspots_loop revisions loc churn authors (max_or_one revisions) (max_or_one loc) common_files [] = Inr out"
    and h: "hotspots = sort_by_score_desc out"
    by (auto simp: calculate_hotspots_def Let_def split: sum.splits)
  from assms(2) h have "e \<in> set out" by simp
  from hotspots_loop_entries [OF out this] show ?thesis by simp
qed

lemma hotspot_entry_fields:
  assumes "hotspot_entry revisions loc churn authors mr ml f = Inr (Some e)"
  shows "entry_file e = f"
    and "map_of revisions f = Some (entry_revisions e)"
    and "map_of loc f = Some (entry_lines e)"
    and "10 \<le> entry_lines e"
    and "\<exists>nr nl. int_truediv (entry_revisions e) mr = Inr nr
           \<and> int_truediv (entry_lines e) ml = Inr nl
           \<and> entry_norm_revisions e = py_round nr 4
           \<and> entry_hotspot_score e
               = py_round (fadd (fmul nr (fl (7 / 10))) (fmul nl (fl (3 / 10)))) 4"
  using assms
  by (auto simp: hotspot_entry_def Let_def split: option.splits sum.splits if_splits)

lemma hotspots_loop_files:
  assumes "hotspots_loop revisions loc churn authors mr ml files acc = Inr out"
  shows "map entry_file out
           = map entry_file acc @ filter (\<lambda>f. \<exists>n. map_of loc f = Some n \<and> 10 \<le> n) files"
  using assms
proof (induction files arbitrary: acc)
  case Nil
  then show ?case by simp
next
  case (Cons f files)
  show ?case
  proof (cases "hotspot_entry revisions loc churn authors mr ml f")
    case (Inl err)
    with Cons.prems show ?thesis by simp
  next
    case (Inr r)
    show ?thesis
    proof (cases r)
      case None
      with Inr have small: "\<not> (\<exists>n. map_of loc f = Some n \<and> 10 \<le> n)"
        by (auto simp: hotspot_entry_def Let_def split: option.splits sum.splits if_splits)
      from None Inr Cons.prems
      have "hotspots_loop revisions loc churn authors mr ml files acc = Inr out" by simp
      from Cons.IH [OF this] small show ?thesis by simp
    next
      case (Some x)
      with Inr have x: "hotspot_entry revisions loc churn authors mr ml f = Inr (Some x)" by simp
      from hotspot_entry_fields(1,3,4) [OF x]
      have big: "\<exists>n. map_of loc f = Some n \<and> 10 \<le> n" and fx: "entry_file x = f" by auto
      from Some Inr Cons.prems
      have "hotspots_loop revisions loc churn authors mr ml files (acc @ [x]) = Inr out" by simp
      from Cons.IH [OF this] big fx show ?thesis by simp
    qed
  qed
qed

lemma map_of_dict_keys: "(\<exists>n. map_of d k = Some n) \<longleftrightarrow> k \<in> set (dict_keys d)"
proof -
  have "(map_of d k = None) \<longleftrightarrow> k \<notin> fst ` set d" by (rule map_of_eq_None_iff)
  then show ?thesis by (auto simp: dict_keys_def)
qed

lemma distinct_map_sort_by_score_desc:
  "distinct (map g (sort_by_score_desc xs)) = distinct (map g xs)"
  by (simp add: sort_by_score_desc_def distinct_map)

lemma sorted_sort_by_score_desc:
  "sorted_wrt (\<lambda>a b. entry_hotspot_score b \<le> entry_hotspot_score a) (sort_by_score_desc xs)"
proof -
  have "sorted (map entry_hotspot_score (sort_key entry_hotspot_score (rev xs)))"
    by (rule sorted_sort_key)
  then have "sorted_wrt (\<lambda>a b. entry_hotspot_score a \<le> entry_hotspot_score b)
               (sort_key entry_hotspot_score (rev xs))"
    by (simp add: sorted_map)
  then show ?thesis
    by (simp add: sort_by_score_desc_def sorted_wrt_rev)
qed

lemma max_or_one_ge:
  assumes "map_of d k = Some v" shows "v \<le> max_or_one d"
proof -
  from assms have "(k, v) \<in> set d" by (rule map_of_SomeD)
  then have v: "v \<in> set (dict_values d)" and "d \<noteq> []"
    by (auto simp: dict_values_def intro: rev_image_eqI)
  then show ?thesis by (simp add: max_or_one_def)
qed

lemma dict_value_mem: "map_of d k = Some v \<Longrightarrow> v \<in> set (dict_values d)"
  by (auto simp: dict_values_def dest!: map_of_SomeD intro: rev_image_eqI)

lemma int_truediv_unit:
  assumes "0 \<le> a" and "a \<le> b" and "int_truediv a b = Inr q"
  shows "0 \<le> q \<and> q \<le> 1"
proof -
  from assms(3) have b0: "b \<noteq> 0" and q: "q = fl (of_int a / of_int b)"
    by (auto simp: int_truediv_def Let_def split: if_splits)
  with assms have bpos: "0 < b" by simp
  have lo: "(0::rat) \<le> of_int a / of_int b" using assms(1) bpos by simp
  have hi: "(of_int a / of_int b :: rat) \<le> 1" using assms(2) bpos by simp
  from fl_nonneg [OF lo] fl_mono_nonneg [OF lo hi] show ?thesis by (simp add: q fl_one)
qed

lemma weights_sum: "fl (fl (fl (7 / 10)) + fl (fl (3 / 10))) = 1"
  by code_simp

lemma score_unit:
  assumes "0 \<le> nr" "nr \<le> 1" "0 \<le> nl" "nl \<le> 1"
  shows "0 \<le> fadd (fmul nr (fl (7 / 10))) (fmul nl (fl (3 / 10)))"
    and "fadd (fmul nr (fl (7 / 10))) (fmul nl (fl (3 / 10))) \<le> 1"
proof -
  have c7: "0 \<le> fl (7 / 10)" and c3: "0 \<le> fl (3 / 10)" by (simp_all add: fl_nonneg)
  have a0: "0 \<le> nr * fl (7 / 10)" and b0: "0 \<le> nl * fl (3 / 10)"
    using assms c7 c3 by simp_all
  have a1: "nr * fl (7 / 10) \<le> fl (7 / 10)"
    by (rule mult_left_le_one_le [OF c7 assms(1) assms(2)])
  have b1: "nl * fl (3 / 10) \<le> fl (3 / 10)"
    by (rule mult_left_le_one_le [OF c3 assms(3) assms(4)])
  have A0: "0 \<le> fmul nr (fl (7 / 10))" and B0: "0 \<le> fmul nl (fl (3 / 10))"
    unfolding fmul_def using a0 b0 by (simp_all add: fl_nonneg)
  have A1: "fmul nr (fl (7 / 10)) \<le> fl (fl (7 / 10))"
    unfolding fmul_def by (rule fl_mono_nonneg [OF a0 a1])
  have B1: "fmul nl (fl (3 / 10)) \<le> fl (fl (3 / 10))"
    unfolding fmul_def by (rule fl_mono_nonneg [OF b0 b1])
  have s0: "0 \<le> fmul nr (fl (7 / 10)) + fmul nl (fl (3 / 10))" using A0 B0 by simp
  have s1: "fmul nr (fl (7 / 10)) + fmul nl (fl (3 / 10)) \<le> fl (fl (7 / 10)) + fl (fl (3 / 10))"
    using A1 B1 by simp
  show "0 \<le> fadd (fmul nr (fl (7 / 10))) (fmul nl (fl (3 / 10)))"
    unfolding fadd_def by (rule fl_nonneg [OF s0])
  show "fadd (fmul nr (fl (7 / 10))) (fmul nl (fl (3 / 10))) \<le> 1"
    unfolding fadd_def using fl_mono_nonneg [OF s0 s1] by (simp add: weights_sum)
qed

lemma py_round_unit:
  assumes "0 \<le> x" and "x \<le> 1"
  shows "0 \<le> py_round x 4 \<and> py_round x 4 \<le> 1"
proof -
  have "0 \<le> x * 10 ^ 4" using assms(1) by simp
  then have r0: "0 \<le> rhe (x * 10 ^ 4)" by (rule rhe_nonneg)
  have "x * 10 ^ 4 \<le> of_int (10 ^ 4)" using assms(2) by simp
  then have "rhe (x * 10 ^ 4) \<le> rhe (of_int (10 ^ 4))" by (rule rhe_mono)
  then have r1: "rhe (x * 10 ^ 4) \<le> 10 ^ 4" by (simp only: rhe_of_int)
  have lo: "(0::rat) \<le> of_int (rhe (x * 10 ^ 4)) / 10 ^ 4" using r0 by simp
  have "(of_int (rhe (x * 10 ^ 4)) :: rat) \<le> of_int (10 ^ 4)" using r1 by (simp only: of_int_le_iff)
  then have hi: "(of_int (rhe (x * 10 ^ 4)) :: rat) / 10 ^ 4 \<le> 1" by simp
  from fl_nonneg [OF lo] fl_mono_nonneg [OF lo hi] show ?thesis
    by (simp add: py_round_def fl_one)
qed

lemma hotspot_entry_returns:
  assumes "\<forall>v\<in>set (dict_values revisions). 0 < v"
    and "f \<in> set (dict_keys revisions)" and "f \<in> set (dict_keys loc)"
  shows "\<exists>r. hotspot_entry revisions loc churn authors (max_or_one revisions) (max_or_one loc) f = Inr r"
proof -
  from assms(2) obtain rev_count where rc: "map_of revisions f = Some rev_count"
    using map_of_dict_keys [of revisions f] by blast
  from assms(3) obtain n where n: "map_of loc f = Some n"
    using map_of_dict_keys [of loc f] by blast
  show ?thesis
  proof (cases "n < 10")
    case True
    with rc n show ?thesis by (simp add: hotspot_entry_def)
  next
    case False
    have rpos: "0 < rev_count" using assms(1) dict_value_mem [OF rc] by blast
    have rle: "rev_count \<le> max_or_one revisions" by (rule max_or_one_ge [OF rc])
    have nle: "n \<le> max_or_one loc" by (rule max_or_one_ge [OF n])
    have d1: "\<exists>q. int_truediv rev_count (max_or_one revisions) = Inr q"
    proof -
      have b: "0 < max_or_one revisions" using rpos rle by simp
      have lo: "(0::rat) \<le> of_int rev_count / of_int (max_or_one revisions)" using rpos b by simp
      have hi: "(of_int rev_count / of_int (max_or_one revisions) :: rat) \<le> 1" using rle b by simp
      from fl_nonneg [OF lo] fl_mono_nonneg [OF lo hi]
      have "\<bar>fl (of_int rev_count / of_int (max_or_one revisions))\<bar> \<le> 1" by (simp add: fl_one)
      then have "\<not> 2 ^ 1024 \<le> \<bar>fl (of_int rev_count / of_int (max_or_one revisions))\<bar>" by simp
      with b show ?thesis by (simp add: int_truediv_def Let_def)
    qed
    have d2: "\<exists>q. int_truediv n (max_or_one loc) = Inr q"
    proof -
      have npos: "0 < n" using False by simp
      have b: "0 < max_or_one loc" using npos nle by simp
      have lo: "(0::rat) \<le> of_int n / of_int (max_or_one loc)" using npos b by simp
      have hi: "(of_int n / of_int (max_or_one loc) :: rat) \<le> 1" using nle b by simp
      from fl_nonneg [OF lo] fl_mono_nonneg [OF lo hi]
      have "\<bar>fl (of_int n / of_int (max_or_one loc))\<bar> \<le> 1" by (simp add: fl_one)
      then have "\<not> 2 ^ 1024 \<le> \<bar>fl (of_int n / of_int (max_or_one loc))\<bar>" by simp
      with b show ?thesis by (simp add: int_truediv_def Let_def)
    qed
    from d1 d2 rc n False show ?thesis
      by (auto simp: hotspot_entry_def Let_def)
  qed
qed

lemma hotspots_loop_returns:
  assumes "\<forall>f\<in>set files. \<exists>r. hotspot_entry revisions loc churn authors mr ml f = Inr r"
  shows "\<exists>out. hotspots_loop revisions loc churn authors mr ml files acc = Inr out"
  using assms
proof (induction files arbitrary: acc)
  case Nil
  show ?case by simp
next
  case (Cons f files)
  from Cons.prems obtain r where r: "hotspot_entry revisions loc churn authors mr ml f = Inr r" by auto
  from Cons.prems have "\<forall>f\<in>set files. \<exists>r. hotspot_entry revisions loc churn authors mr ml f = Inr r" by simp
  from Cons.IH [OF this] r show ?case by (cases r) simp_all
qed

lemma calculate_hotspots_returns:
  assumes "\<forall>v\<in>set (dict_values revisions). 0 < v"
    and "is_common_files revisions loc common_files"
  shows "\<exists>hotspots. calculate_hotspots revisions loc churn authors common_files = Inr hotspots"
proof -
  have "\<forall>f\<in>set common_files. \<exists>r. hotspot_entry revisions loc churn authors
           (max_or_one revisions) (max_or_one loc) f = Inr r"
    using assms(2) hotspot_entry_returns [OF assms(1)] by (auto simp: is_common_files_def)
  from hotspots_loop_returns [OF this, of "[]"] show ?thesis
    by (auto simp: calculate_hotspots_def Let_def)
qed

lemma hotspot_score_finite:
  assumes "map_of loc f = Some n" and "10 \<le> n"
    and "int_truediv rev_count max_revisions = Inr nr"
    and "int_truediv n (max_or_one loc) = Inr nl"
  shows "\<bar>fmul nr (fl (7 / 10))\<bar> < 2 ^ 1024
         \<and> \<bar>fmul nl (fl (3 / 10))\<bar> < 2 ^ 1024
         \<and> \<bar>fadd (fmul nr (fl (7 / 10))) (fmul nl (fl (3 / 10)))\<bar> < 2 ^ 1024"
proof -
  have "0 \<le> n" using assms(2) by simp
  from int_truediv_unit [OF this max_or_one_ge [OF assms(1)] assms(4)]
  have "0 \<le> nl" and "nl \<le> 1" by simp_all
  then show ?thesis by (rule score_finite [OF assms(3)])
qed

text \<open>The example of the specification and the pieces of its arithmetic.\<close>

lemma ev_div_a: "int_truediv 10 10 = Inr 1"
  by (simp add: int_truediv_self)
lemma ev_div_d: "int_truediv 50 50 = Inr 1"
  by (simp add: int_truediv_self)
lemma ev_div_b: "int_truediv 2 10 = Inr (fl (1 / 5))" by code_simp
lemma ev_div_c: "int_truediv 20 50 = Inr (fl (2 / 5))" by code_simp
lemma ev_score_a: "py_round (fadd (fmul 1 (fl (7 / 10))) (fmul 1 (fl (3 / 10)))) 4 = 1" by code_simp
lemma ev_score_b: "py_round (fadd (fmul (fl (1 / 5)) (fl (7 / 10))) (fmul (fl (2 / 5)) (fl (3 / 10)))) 4 = fl (13 / 50)" by code_simp
lemma ev_round_b: "py_round (fl (1 / 5)) 4 = fl (1 / 5)" by code_simp
lemma ev_cmp: "fl (13 / 50) < 1" by code_simp
lemma ev_cmp_le: "fl (13 / 50) \<le> 1" using ev_cmp by simp
lemma ev_cmp_ge: "\<not> 1 \<le> fl (13 / 50)" using ev_cmp by simp

lemmas spec_eval = calculate_hotspots_def hotspot_entry_def max_or_one_def dict_values_def
  sort_by_score_desc_def Let_def ev_div_a ev_div_b ev_div_c ev_score_a ev_score_b ev_round_b
  py_round_one ev_cmp_le ev_cmp_ge ev_div_d

lemma spec_example_ab:
  "calculate_hotspots spec_revisions spec_loc None None [''a.py'', ''b.py'']
     = Inr [spec_entry_a, spec_entry_b]"
  by (simp add: spec_eval)

lemma spec_example_ba:
  "calculate_hotspots spec_revisions spec_loc None None [''b.py'', ''a.py'']
     = Inr [spec_entry_a, spec_entry_b]"
  by (simp add: spec_eval)

lemma ev_div_e: "int_truediv 20 20 = Inr 1"
  by (simp add: int_truediv_self)

lemma ev_score_c:
  "py_round (fadd (fmul (fl (1 / 5)) (fl (7 / 10))) (fmul 1 (fl (3 / 10)))) 4 = fl (11 / 25)"
  by code_simp

lemma ev_fifth: "fl (1 / 5) < 1"
  by code_simp

text \<open>
  C1, as the specification words it, fails: the divisors are not the maxima over the
  intersection. With revisions \<open>{a.py: 10, b.py: 2}\<close> and line counts \<open>{b.py: 20}\<close> the
  only scored file is \<open>b.py\<close>, which therefore has the most revisions among the scored
  files, and its normalised revision count is \<open>2 / 10\<close>, the float \<open>0.2\<close>, not \<open>1.0\<close>.
\<close>

theorem max_over_intersection_counterexample:
  "is_common_files [(''a.py'', 10), (''b.py'', 2)] [(''b.py'', 20)] [''b.py'']
   \<and> calculate_hotspots [(''a.py'', 10), (''b.py'', 2)] [(''b.py'', 20)] None None [''b.py'']
       = Inr [\<lparr>entry_file = ''b.py'', entry_revisions = 2, entry_lines = 20,
               entry_hotspot_score = fl (11 / 25), entry_norm_revisions = fl (1 / 5),
               entry_churn_added = None, entry_churn_deleted = None,
               entry_total_churn = None, entry_authors = None, entry_commits = None\<rparr>]
   \<and> fl (1 / 5) \<noteq> 1"
proof -
  have common: "is_common_files [(''a.py'', 10), (''b.py'', 2)] [(''b.py'', 20)] [''b.py'']"
    by (simp add: is_common_files_def dict_keys_def)
  have run: "calculate_hotspots [(''a.py'', 10), (''b.py'', 2)] [(''b.py'', 20)] None None [''b.py'']
       = Inr [\<lparr>entry_file = ''b.py'', entry_revisions = 2, entry_lines = 20,
               entry_hotspot_score = fl (11 / 25), entry_norm_revisions = fl (1 / 5),
               entry_churn_added = None, entry_churn_deleted = None,
               entry_total_churn = None, entry_authors = None, entry_commits = None\<rparr>]"
    by (simp add: spec_eval ev_div_e ev_score_c)
  have "fl (1 / 5) \<noteq> 1" using ev_fifth by simp
  with common run show ?thesis by blast
qed

text \<open>
  C1, amended. The divisors \<open>max_revisions\<close> and \<open>max_loc\<close> are the maxima over all values
  of the revision map and over all values of the line-count map (1 for an empty map),
  taken before the two maps are intersected. Every entry of the result has
  \<open>norm_revisions = round(revisions / max_revisions, 4)\<close>, and an entry whose revision
  count is the maximum of the whole revision map has \<open>norm_revisions = 1.0\<close>.
\<close>

theorem normalised_by_whole_map_maxima:
  assumes "calculate_hotspots revisions loc churn authors common_files = Inr hotspots"
    and "e \<in> set hotspots"
  shows "max_or_one revisions = (if revisions = [] then 1 else Max (snd ` set revisions))
         \<and> max_or_one loc = (if loc = [] then 1 else Max (snd ` set loc))
         \<and> (\<exists>nr nl. int_truediv (entry_revisions e) (max_or_one revisions) = Inr nr
                \<and> int_truediv (entry_lines e) (max_or_one loc) = Inr nl
                \<and> entry_norm_revisions e = py_round nr 4
                \<and> entry_hotspot_score e
                    = py_round (fadd (fmul nr (fl (7 / 10))) (fmul nl (fl (3 / 10)))) 4)
         \<and> (entry_revisions e = max_or_one revisions \<longrightarrow> entry_norm_revisions e = 1)"
proof -
  from calculate_hotspots_entries [OF assms] obtain f where
    f: "hotspot_entry revisions loc churn authors (max_or_one revisions) (max_or_one loc) f = Inr (Some e)"
    by blast
  from hotspot_entry_fields(5) [OF f] obtain nr nl where
    nr: "int_truediv (entry_revisions e) (max_or_one revisions) = Inr nr"
    and nl: "int_truediv (entry_lines e) (max_or_one loc) = Inr nl"
    and n: "entry_norm_revisions e = py_round nr 4"
    and s: "entry_hotspot_score e = py_round (fadd (fmul nr (fl (7 / 10))) (fmul nl (fl (3 / 10)))) 4"
    by blast
  have top: "entry_revisions e = max_or_one revisions \<longrightarrow> entry_norm_revisions e = 1"
  proof
    assume eq: "entry_revisions e = max_or_one revisions"
    have "max_or_one revisions \<noteq> 0"
      using nr unfolding eq by (auto simp: int_truediv_def)
    from int_truediv_self [OF this] nr eq have "nr = 1" by simp
    with n show "entry_norm_revisions e = 1" by (simp add: py_round_one)
  qed
  have "max_or_one revisions = (if revisions = [] then 1 else Max (snd ` set revisions))"
    and "max_or_one loc = (if loc = [] then 1 else Max (snd ` set loc))"
    by (simp_all add: max_or_one_def dict_values_def)
  with nr nl n s top show ?thesis by blast
qed

theorem normalised_by_whole_map_maxima_witness:
  "calculate_hotspots spec_revisions spec_loc None None [''a.py'', ''b.py'']
     = Inr [spec_entry_a, spec_entry_b]
   \<and> entry_revisions spec_entry_a = max_or_one spec_revisions
   \<and> entry_norm_revisions spec_entry_a = 1"
proof -
  have m: "entry_revisions spec_entry_a = max_or_one spec_revisions"
    by (simp add: max_or_one_def dict_values_def)
  from normalised_by_whole_map_maxima [OF spec_example_ab, of spec_entry_a] m spec_example_ab
  show ?thesis by simp
qed

text \<open>
  C2. When the scorer returns, the files of its entries are exactly the paths that are
  keys of the revision map and of the line-count map with a line count of at least 10,
  each once: a file with fewer than ten lines, or a file in one map only, is not in the
  result. (\<open>calculate_hotspots_returns\<close>: it returns whenever every revision count is
  positive, as the counts of the extractor are.)
\<close>

theorem scored_files_exact:
  assumes "is_common_files revisions loc common_files"
    and "calculate_hotspots revisions loc churn authors common_files = Inr hotspots"
  shows "set (map entry_file hotspots)
           = {f. f \<in> set (dict_keys revisions) \<and> (\<exists>n. map_of loc f = Some n \<and> 10 \<le> n)}
         \<and> distinct (map entry_file hotspots)"
proof -
  from assms(2) obtain out where
    out: "hotspots_loop revisions loc churn authors (max_or_one revisions) (max_or_one loc) common_files [] = Inr out"
    and h: "hotspots = sort_by_score_desc out"
    by (auto simp: calculate_hotspots_def Let_def split: sum.splits)
  from hotspots_loop_files [OF out]
  have files: "map entry_file out = filter (\<lambda>f. \<exists>n. map_of loc f = Some n \<and> 10 \<le> n) common_files"
    by simp
  have "set (map entry_file hotspots) = set (map entry_file out)"
    unfolding h by simp
  also have "\<dots> = {f \<in> set common_files. \<exists>n. map_of loc f = Some n \<and> 10 \<le> n}"
    unfolding files by simp
  also have "\<dots> = {f. f \<in> set (dict_keys revisions) \<and> (\<exists>n. map_of loc f = Some n \<and> 10 \<le> n)}"
    using assms(1) map_of_dict_keys [of loc] by (auto simp: is_common_files_def)
  finally have a: "set (map entry_file hotspots)
           = {f. f \<in> set (dict_keys revisions) \<and> (\<exists>n. map_of loc f = Some n \<and> 10 \<le> n)}" .
  have "distinct (map entry_file out)"
    unfolding files using assms(1) by (simp add: is_common_files_def)
  then have b: "distinct (map entry_file hotspots)"
    unfolding h by (simp add: distinct_map_sort_by_score_desc)
  from a b show ?thesis by simp
qed

theorem scored_files_exact_witness:
  "is_common_files [(''a.py'', 10), (''b.py'', 2), (''c.py'', 7), (''d.py'', 4)]
                   [(''a.py'', 50), (''b.py'', 20), (''c.py'', 9), (''e.py'', 100)]
                   [''a.py'', ''b.py'', ''c.py'']
   \<and> (\<exists>hotspots.
         calculate_hotspots [(''a.py'', 10), (''b.py'', 2), (''c.py'', 7), (''d.py'', 4)]
                   [(''a.py'', 50), (''b.py'', 20), (''c.py'', 9), (''e.py'', 100)]
                   None None [''a.py'', ''b.py'', ''c.py''] = Inr hotspots
         \<and> set (map entry_file hotspots) = {''a.py'', ''b.py''})"
proof -
  let ?R = "[(''a.py'', 10), (''b.py'', 2), (''c.py'', 7), (''d.py'', 4)] :: (string, int) dict"
  let ?L = "[(''a.py'', 50), (''b.py'', 20), (''c.py'', 9), (''e.py'', 100)] :: (string, int) dict"
  let ?C = "[''a.py'', ''b.py'', ''c.py'']"
  have common: "is_common_files ?R ?L ?C"
    by (auto simp: is_common_files_def dict_keys_def)
  have "\<forall>v\<in>set (dict_values ?R). 0 < v" by (simp add: dict_values_def)
  from calculate_hotspots_returns [OF this common, of None None] obtain hotspots where
    run: "calculate_hotspots ?R ?L None None ?C = Inr hotspots" by blast
  have "{f. f \<in> set (dict_keys ?R) \<and> (\<exists>n. map_of ?L f = Some n \<and> 10 \<le> n)} = {''a.py'', ''b.py''}"
    by (auto simp: dict_keys_def)
  with scored_files_exact [OF common run]
  have "set (map entry_file hotspots) = {''a.py'', ''b.py''}" by simp
  with common run show ?thesis by blast
qed

text \<open>The value that \<open>round(x, 4)\<close> returns, said without the function itself.\<close>

lemma py_round_nearest:
  "\<exists>k::int. py_round x 4 = fl (of_int k / 10 ^ 4)
      \<and> \<bar>x * 10 ^ 4 - of_int k\<bar> \<le> 1 / 2
      \<and> (\<bar>x * 10 ^ 4 - of_int k\<bar> = 1 / 2 \<longrightarrow> even k)"
proof (intro exI conjI impI)
  show "py_round x 4 = fl (of_int (rhe (x * 10 ^ 4)) / 10 ^ 4)" by (simp only: py_round_def)
  show "\<bar>x * 10 ^ 4 - of_int (rhe (x * 10 ^ 4))\<bar> \<le> 1 / 2" by (rule rhe_nearest)
  show "\<bar>x * 10 ^ 4 - of_int (rhe (x * 10 ^ 4))\<bar> = 1 / 2 \<Longrightarrow> even (rhe (x * 10 ^ 4))"
    by (rule rhe_tie_even)
qed

lemma ev_unrounded_c:
  "fadd (fmul (fl (1 / 5)) (fl (7 / 10))) (fmul 1 (fl (3 / 10))) < fl (11 / 25)"
  by code_simp

lemma rounding_example_run:
  "calculate_hotspots [(''a.py'', 10), (''b.py'', 2)] [(''b.py'', 20)] None None [''b.py'']
     = Inr [rounded_entry_b]"
  by (simp add: spec_eval ev_div_e ev_score_c)

text \<open>
  C3. In the result of the scorer every entry has
  \<open>hotspot_score = round(norm_revisions * 0.7 + norm_loc * 0.3, 4)\<close>, in float arithmetic,
  on the unrounded quotients \<open>norm_revisions = revisions / max_revisions\<close> and
  \<open>norm_loc = lines / max_loc\<close>: the score is the double nearest to \<open>k / 10000\<close>, where \<open>k\<close>
  is the integer nearest to 10000 times the weighted sum (the even one of two equally
  near). The entries are in descending order of score. On revisions
  \<open>{a.py: 10, b.py: 2}\<close> and line counts \<open>{a.py: 50, b.py: 20}\<close>, in either order of
  iteration, the result is \<open>a.py\<close> with both quotients \<open>1.0\<close> and score \<open>1.0\<close>, then
  \<open>b.py\<close> with quotients \<open>0.2\<close> and \<open>0.4\<close> and score \<open>0.26\<close> (each the double nearest to
  that decimal). With line counts \<open>{b.py: 20}\<close> alone the weighted sum of \<open>b.py\<close> is
  \<open>0.43999999999999995\<close>, below the double \<open>0.44\<close>, and its score is \<open>0.44\<close>.
\<close>

theorem score_formula_and_order:
  "(calculate_hotspots revisions loc churn authors common_files = Inr hotspots \<longrightarrow>
      sorted_wrt (\<lambda>a b. entry_hotspot_score b \<le> entry_hotspot_score a) hotspots
      \<and> (\<forall>e\<in>set hotspots. \<exists>nr nl.
             int_truediv (entry_revisions e) (max_or_one revisions) = Inr nr
             \<and> int_truediv (entry_lines e) (max_or_one loc) = Inr nl
             \<and> entry_hotspot_score e
                 = py_round (fadd (fmul nr (fl (7 / 10))) (fmul nl (fl (3 / 10)))) 4
             \<and> (\<exists>k::int.
                   entry_hotspot_score e = fl (of_int k / 10 ^ 4)
                   \<and> \<bar>fadd (fmul nr (fl (7 / 10))) (fmul nl (fl (3 / 10))) * 10 ^ 4 - of_int k\<bar>
                       \<le> 1 / 2
                   \<and> (\<bar>fadd (fmul nr (fl (7 / 10))) (fmul nl (fl (3 / 10))) * 10 ^ 4 - of_int k\<bar>
                         = 1 / 2 \<longrightarrow> even k))))
   \<and> calculate_hotspots spec_revisions spec_loc None None [''a.py'', ''b.py'']
       = Inr [spec_entry_a, spec_entry_b]
   \<and> calculate_hotspots spec_revisions spec_loc None None [''b.py'', ''a.py'']
       = Inr [spec_entry_a, spec_entry_b]
   \<and> int_truediv 10 10 = Inr 1 \<and> int_truediv 50 50 = Inr 1
   \<and> int_truediv 2 10 = Inr (fl (1 / 5)) \<and> int_truediv 20 50 = Inr (fl (2 / 5))
   \<and> calculate_hotspots [(''a.py'', 10), (''b.py'', 2)] [(''b.py'', 20)] None None [''b.py'']
       = Inr [rounded_entry_b]
   \<and> int_truediv 20 20 = Inr 1
   \<and> fadd (fmul (fl (1 / 5)) (fl (7 / 10))) (fmul 1 (fl (3 / 10))) < fl (11 / 25)
   \<and> fl (11 / 25) = fl (4400 / 10 ^ 4)"
proof -
  have general: "calculate_hotspots revisions loc churn authors common_files = Inr hotspots \<longrightarrow>
      sorted_wrt (\<lambda>a b. entry_hotspot_score b \<le> entry_hotspot_score a) hotspots
      \<and> (\<forall>e\<in>set hotspots. \<exists>nr nl.
             int_truediv (entry_revisions e) (max_or_one revisions) = Inr nr
             \<and> int_truediv (entry_lines e) (max_or_one loc) = Inr nl
             \<and> entry_hotspot_score e
                 = py_round (fadd (fmul nr (fl (7 / 10))) (fmul nl (fl (3 / 10)))) 4
             \<and> (\<exists>k::int.
                   entry_hotspot_score e = fl (of_int k / 10 ^ 4)
                   \<and> \<bar>fadd (fmul nr (fl (7 / 10))) (fmul nl (fl (3 / 10))) * 10 ^ 4 - of_int k\<bar>
                       \<le> 1 / 2
                   \<and> (\<bar>fadd (fmul nr (fl (7 / 10))) (fmul nl (fl (3 / 10))) * 10 ^ 4 - of_int k\<bar>
                         = 1 / 2 \<longrightarrow> even k)))"
  proof
    assume run: "calculate_hotspots revisions loc churn authors common_files = Inr hotspots"
    then obtain out where h: "hotspots = sort_by_score_desc out"
      by (auto simp: calculate_hotspots_def Let_def split: sum.splits)
    have sorted: "sorted_wrt (\<lambda>a b. entry_hotspot_score b \<le> entry_hotspot_score a) hotspots"
      unfolding h by (rule sorted_sort_by_score_desc)
    have "\<forall>e\<in>set hotspots. \<exists>nr nl.
             int_truediv (entry_revisions e) (max_or_one revisions) = Inr nr
             \<and> int_truediv (entry_lines e) (max_or_one loc) = Inr nl
             \<and> entry_hotspot_score e
                 = py_round (fadd (fmul nr (fl (7 / 10))) (fmul nl (fl (3 / 10)))) 4
             \<and> (\<exists>k::int.
                   entry_hotspot_score e = fl (of_int k / 10 ^ 4)
                   \<and> \<bar>fadd (fmul nr (fl (7 / 10))) (fmul nl (fl (3 / 10))) * 10 ^ 4 - of_int k\<bar>
                       \<le> 1 / 2
                   \<and> (\<bar>fadd (fmul nr (fl (7 / 10))) (fmul nl (fl (3 / 10))) * 10 ^ 4 - of_int k\<bar>
                         = 1 / 2 \<longrightarrow> even k))"
    proof
      fix e assume "e \<in> set hotspots"
      from calculate_hotspots_entries [OF run this] obtain f where
        "hotspot_entry revisions loc churn authors (max_or_one revisions) (max_or_one loc) f
           = Inr (Some e)" by blast
      from hotspot_entry_fields(5) [OF this] obtain nr nl where
        nr: "int_truediv (entry_revisions e) (max_or_one revisions) = Inr nr"
        and nl: "int_truediv (entry_lines e) (max_or_one loc) = Inr nl"
        and s: "entry_hotspot_score e
                 = py_round (fadd (fmul nr (fl (7 / 10))) (fmul nl (fl (3 / 10)))) 4"
        by blast
      from py_round_nearest [of "fadd (fmul nr (fl (7 / 10))) (fmul nl (fl (3 / 10)))"]
      have "\<exists>k::int.
                   entry_hotspot_score e = fl (of_int k / 10 ^ 4)
                   \<and> \<bar>fadd (fmul nr (fl (7 / 10))) (fmul nl (fl (3 / 10))) * 10 ^ 4 - of_int k\<bar>
                       \<le> 1 / 2
                   \<and> (\<bar>fadd (fmul nr (fl (7 / 10))) (fmul nl (fl (3 / 10))) * 10 ^ 4 - of_int k\<bar>
                         = 1 / 2 \<longrightarrow> even k)"
        unfolding s .
      with nr nl s show "\<exists>nr nl.
             int_truediv (entry_revisions e) (max_or_one revisions) = Inr nr
             \<and> int_truediv (entry_lines e) (max_or_one loc) = Inr nl
             \<and> entry_hotspot_score e
                 = py_round (fadd (fmul nr (fl (7 / 10))) (fmul nl (fl (3 / 10)))) 4
             \<and> (\<exists>k::int.
                   entry_hotspot_score e = fl (of_int k / 10 ^ 4)
                   \<and> \<bar>fadd (fmul nr (fl (7 / 10))) (fmul nl (fl (3 / 10))) * 10 ^ 4 - of_int k\<bar>
                       \<le> 1 / 2
                   \<and> (\<bar>fadd (fmul nr (fl (7 / 10))) (fmul nl (fl (3 / 10))) * 10 ^ 4 - of_int k\<bar>
                         = 1 / 2 \<longrightarrow> even k))"
        by blast
    qed
    with sorted show "sorted_wrt (\<lambda>a b. entry_hotspot_score b \<le> entry_hotspot_score a) hotspots
      \<and> (\<forall>e\<in>set hotspots. \<exists>nr nl.
             int_truediv (entry_revisions e) (max_or_one revisions) = Inr nr
             \<and> int_truediv (entry_lines e) (max_or_one loc) = Inr nl
             \<and> entry_hotspot_score e
                 = py_round (fadd (fmul nr (fl (7 / 10))) (fmul nl (fl (3 / 10)))) 4
             \<and> (\<exists>k::int.
                   entry_hotspot_score e = fl (of_int k / 10 ^ 4)
                   \<and> \<bar>fadd (fmul nr (fl (7 / 10))) (fmul nl (fl (3 / 10))) * 10 ^ 4 - of_int k\<bar>
                       \<le> 1 / 2
                   \<and> (\<bar>fadd (fmul nr (fl (7 / 10))) (fmul nl (fl (3 / 10))) * 10 ^ 4 - of_int k\<bar>
                         = 1 / 2 \<longrightarrow> even k)))"
      by blast
  qed
  have grid: "fl (11 / 25) = fl (4400 / 10 ^ 4)" by simp
  from general spec_example_ab spec_example_ba ev_div_a ev_div_d ev_div_b ev_div_c
    rounding_example_run ev_div_e ev_unrounded_c grid
  show ?thesis by blast
qed

theorem score_formula_and_order_witness:
  "calculate_hotspots spec_revisions spec_loc None None [''b.py'', ''a.py'']
     = Inr [spec_entry_a, spec_entry_b]
   \<and> sorted_wrt (\<lambda>a b. entry_hotspot_score b \<le> entry_hotspot_score a)
        [spec_entry_a, spec_entry_b]
   \<and> entry_hotspot_score spec_entry_b
       = py_round (fadd (fmul (fl (1 / 5)) (fl (7 / 10))) (fmul (fl (2 / 5)) (fl (3 / 10)))) 4
   \<and> calculate_hotspots [(''a.py'', 10), (''b.py'', 2)] [(''b.py'', 20)] None None [''b.py'']
       = Inr [rounded_entry_b]
   \<and> (\<exists>k::int. entry_hotspot_score rounded_entry_b = fl (of_int k / 10 ^ 4)
         \<and> \<bar>fadd (fmul (fl (1 / 5)) (fl (7 / 10))) (fmul 1 (fl (3 / 10))) * 10 ^ 4 - of_int k\<bar>
             \<le> 1 / 2)
   \<and> fadd (fmul (fl (1 / 5)) (fl (7 / 10))) (fmul 1 (fl (3 / 10)))
       < entry_hotspot_score rounded_entry_b"
proof -
  note T = score_formula_and_order
  have run: "calculate_hotspots spec_revisions spec_loc None None [''b.py'', ''a.py'']
     = Inr [spec_entry_a, spec_entry_b]"
    using T [of spec_revisions spec_loc None None "[]" "[]"] by blast
  from T [of spec_revisions spec_loc None None "[''b.py'', ''a.py'']"
      "[spec_entry_a, spec_entry_b]"] run
  have sorted: "sorted_wrt (\<lambda>a b. entry_hotspot_score b \<le> entry_hotspot_score a)
          [spec_entry_a, spec_entry_b]" by blast
  have run2: "calculate_hotspots [(''a.py'', 10), (''b.py'', 2)] [(''b.py'', 20)] None None [''b.py'']
       = Inr [rounded_entry_b]"
    using T [of spec_revisions spec_loc None None "[]" "[]"] by blast
  have less: "fadd (fmul (fl (1 / 5)) (fl (7 / 10))) (fmul 1 (fl (3 / 10))) < fl (11 / 25)"
    using T [of spec_revisions spec_loc None None "[]" "[]"] by blast
  from T [of "[(''a.py'', 10), (''b.py'', 2)]" "[(''b.py'', 20)]" None None "[''b.py'']"
      "[rounded_entry_b]"] run2
  have "\<exists>nr nl. int_truediv 2 (max_or_one [(''a.py'', 10), (''b.py'', 2)]) = Inr nr
          \<and> int_truediv 20 (max_or_one [(''b.py'', 20)]) = Inr nl
          \<and> (\<exists>k::int. fl (11 / 25) = fl (of_int k / 10 ^ 4)
                \<and> \<bar>fadd (fmul nr (fl (7 / 10))) (fmul nl (fl (3 / 10))) * 10 ^ 4 - of_int k\<bar>
                    \<le> 1 / 2)"
    by auto
  then have near: "\<exists>k::int. fl (11 / 25) = fl (of_int k / 10 ^ 4)
         \<and> \<bar>fadd (fmul (fl (1 / 5)) (fl (7 / 10))) (fmul 1 (fl (3 / 10))) * 10 ^ 4 - of_int k\<bar>
             \<le> 1 / 2"
    by (simp add: max_or_one_def dict_values_def ev_div_b ev_div_e)
  from run sorted run2 near less show ?thesis by (simp add: ev_score_b)
qed

text \<open>
  C8. When no revision count and no line count is negative, the score of every entry
  that the scorer produces lies between 0 and 1, in float arithmetic: both quotients
  lie between 0 and 1, rounding to a double is monotone and \<open>0.7 + 0.3\<close> rounds to \<open>1.0\<close>.
\<close>

theorem score_in_unit_interval:
  assumes "\<forall>v\<in>set (dict_values revisions). 0 \<le> v"
    and "\<forall>v\<in>set (dict_values loc). 0 \<le> v"
    and "calculate_hotspots revisions loc churn authors common_files = Inr hotspots"
    and "e \<in> set hotspots"
  shows "0 \<le> entry_hotspot_score e \<and> entry_hotspot_score e \<le> 1"
proof -
  from calculate_hotspots_entries [OF assms(3,4)] obtain f where
    f: "hotspot_entry revisions loc churn authors (max_or_one revisions) (max_or_one loc) f = Inr (Some e)"
    by blast
  note F = hotspot_entry_fields [OF f]
  from F(5) obtain nr nl where
    nr: "int_truediv (entry_revisions e) (max_or_one revisions) = Inr nr"
    and nl: "int_truediv (entry_lines e) (max_or_one loc) = Inr nl"
    and s: "entry_hotspot_score e = py_round (fadd (fmul nr (fl (7 / 10))) (fmul nl (fl (3 / 10)))) 4"
    by blast
  have "0 \<le> entry_revisions e" using assms(1) dict_value_mem [OF F(2)] by blast
  from int_truediv_unit [OF this max_or_one_ge [OF F(2)] nr] have NR: "0 \<le> nr" "nr \<le> 1" by simp_all
  have "0 \<le> entry_lines e" using assms(2) dict_value_mem [OF F(3)] by blast
  from int_truediv_unit [OF this max_or_one_ge [OF F(3)] nl] have NL: "0 \<le> nl" "nl \<le> 1" by simp_all
  from py_round_unit [OF score_unit [OF NR NL]] show ?thesis by (simp add: s)
qed

theorem score_in_unit_interval_witness:
  "calculate_hotspots spec_revisions spec_loc None None [''a.py'', ''b.py'']
     = Inr [spec_entry_a, spec_entry_b]
   \<and> 0 \<le> entry_hotspot_score spec_entry_b \<and> entry_hotspot_score spec_entry_b \<le> 1"
proof -
  have r: "\<forall>v\<in>set (dict_values spec_revisions). 0 \<le> v"
    and l: "\<forall>v\<in>set (dict_values spec_loc). 0 \<le> v"
    by (simp_all add: dict_values_def)
  from score_in_unit_interval [OF r l spec_example_ab, of spec_entry_b] spec_example_ab
  show ?thesis by simp
qed

end
